theory Spec2Isabelle
  imports Main "HOL-Library.Sublist" "HOL-Library.Char_ord" "HOL-Library.List_Lexorder"
begin

section \<open>Python strings and lists\<close>

text \<open>
  The scripts under \<^verbatim>\<open>ios/ZairyuMate\<close> edit \<^verbatim>\<open>project.pbxproj\<close> as text. A Python
  \<^verbatim>\<open>str\<close> is modelled as a \<^typ>\<open>string\<close> (code points below 256); the text is what
  \<^verbatim>\<open>read_text()\<close> returns and what \<^verbatim>\<open>write_text()\<close> receives.
\<close>

datatype py_error = IndexError | FileNotFoundError

text \<open>\<^verbatim>\<open>pat in s\<close> on strings: \<^verbatim>\<open>pat\<close> occurs in \<^verbatim>\<open>s\<close> as a contiguous run.\<close>

definition py_in :: "string \<Rightarrow> string \<Rightarrow> bool" where
  "py_in pat s = sublist pat s"

definition LF :: char where
  "LF = CHR 0x0A"

definition TAB :: char where
  "TAB = CHR 0x09"

definition DQ :: char where
  "DQ = CHR 0x22"

text \<open>
  The characters at which \<^verbatim>\<open>str.splitlines()\<close> ends a line, among the code points below
  256: LF, VT, FF, CR, FS, GS, RS and NEL. CR followed by LF is one terminator.
\<close>

definition is_break :: "char \<Rightarrow> bool" where
  "is_break c = (c \<in> set [CHR 0x0A, CHR 0x0B, CHR 0x0C, CHR 0x0D, CHR 0x1C, CHR 0x1D, CHR 0x1E, CHR 0x85])"

fun splitlines :: "string \<Rightarrow> string list" where
  "splitlines [] = []"
| "splitlines [c] = (if is_break c then [[]] else [[c]])"
| "splitlines (c # d # ds) =
     (if c = CHR 0x0D \<and> d = LF then [] # splitlines ds
      else if is_break c then [] # splitlines (d # ds)
      else (case splitlines (d # ds) of
              [] \<Rightarrow> [[c]]
            | l # ls \<Rightarrow> (c # l) # ls))"

text \<open>\<^verbatim>\<open>s.split(sep)\<close> for a separator of one character: never empty, the last piece is
  what follows the last separator.\<close>

fun split_char :: "char \<Rightarrow> string \<Rightarrow> string list" where
  "split_char sep [] = [[]]"
| "split_char sep (c # cs) =
     (if c = sep then [] # split_char sep cs
      else (case split_char sep cs of
              [] \<Rightarrow> [[c]]
            | l # ls \<Rightarrow> (c # l) # ls))"

text \<open>\<^verbatim>\<open>sep.join(xs)\<close> for a separator of one character.\<close>

fun join_char :: "char \<Rightarrow> string list \<Rightarrow> string" where
  "join_char sep [] = []"
| "join_char sep [l] = l"
| "join_char sep (l # m # ls) = l @ sep # join_char sep (m # ls)"

abbreviation split_nl :: "string \<Rightarrow> string list" where
  "split_nl \<equiv> split_char LF"

abbreviation join_nl :: "string list \<Rightarrow> string" where
  "join_nl \<equiv> join_char LF"

text \<open>
  \<^verbatim>\<open>Path.read_text()\<close> and \<^verbatim>\<open>open(path, 'r')\<close> read in text mode with universal newlines:
  of the stored characters, a carriage return followed by a line feed, and a carriage
  return alone, are read as one line feed. \<^verbatim>\<open>write_text()\<close> and \<^verbatim>\<open>open(path, 'w')\<close> store
  a line feed as the line separator of the system; the scripts name paths under
  \<^verbatim>\<open>/Users\<close>, a system on which that is the line feed itself, so the text is stored as it
  is.
\<close>

definition CR :: char where
  "CR = CHR 0x0D"

fun universal_newlines :: "string \<Rightarrow> string" where
  "universal_newlines [] = []"
| "universal_newlines [c] = (if c = CR then [LF] else [c])"
| "universal_newlines (c # d # ds) =
     (if c = CR \<and> d = LF then LF # universal_newlines ds
      else if c = CR then LF # universal_newlines (d # ds)
      else c # universal_newlines (d # ds))"

definition read_text :: "string \<Rightarrow> string" where
  "read_text stored = universal_newlines stored"

text \<open>\<^verbatim>\<open>str(n)\<close> for a non-negative integer.\<close>

definition digit_char :: "nat \<Rightarrow> char" where
  "digit_char d = ''0123456789'' ! d"

function str_nat :: "nat \<Rightarrow> string" where
  "str_nat n = (if n < 10 then [digit_char n] else str_nat (n div 10) @ [digit_char (n mod 10)])"
  by pat_completeness auto
termination
  by (relation "measure id") auto

declare str_nat.simps [simp del]

text \<open>\<^verbatim>\<open>str.upper()\<close> on ASCII letters (a hex digest has no other letters).\<close>

definition py_upper :: "char \<Rightarrow> char" where
  "py_upper c = (if CHR ''a'' \<le> c \<and> c \<le> CHR ''z'' then char_of (of_char c - (32::nat)) else c)"

section \<open>Identifier allocation\<close>

text \<open>
  \<^verbatim>\<open>gen_id(seed)\<close> of \<^verbatim>\<open>manual_fix.py\<close>, \<^verbatim>\<open>final_complete_fix.py\<close> and
  \<^verbatim>\<open>ULTIMATE_FIX.py\<close>:
  \<^verbatim>\<open>hashlib.md5(str(seed).encode()).hexdigest().upper()[:24]\<close>.
  The digest function of \<^verbatim>\<open>hashlib\<close> is not code of the repository; it is the parameter
  \<open>md5\<close>, mapping a string to its hexadecimal digest.
\<close>

definition gen_id :: "(string \<Rightarrow> string) \<Rightarrow> nat \<Rightarrow> string" where
  "gen_id md5 seed = take 24 (map py_upper (md5 (str_nat seed)))"

section \<open>Rendering of records\<close>

definition file_type :: "string \<Rightarrow> string" where
  "file_type fname =
     (if py_in ''.xcdatamodeld'' fname then ''wrapper.xcdatamodeld'' else ''sourcecode.swift'')"

definition ref_line :: "string \<Rightarrow> string \<Rightarrow> string \<Rightarrow> string" where
  "ref_line fid fname ftype =
     [TAB, TAB] @ fid @ '' /* '' @ fname @ '' */ = {isa = PBXFileReference; lastKnownFileType = ''
       @ ftype @ ''; path = '' @ fname @ ''; sourceTree = '' @ [DQ] @ ''<group>'' @ [DQ] @ ''; };''"

definition build_line :: "string \<Rightarrow> string \<Rightarrow> string \<Rightarrow> string" where
  "build_line bid fid fname =
     [TAB, TAB] @ bid @ '' /* '' @ fname @ '' in Sources */ = {isa = PBXBuildFile; fileRef = ''
       @ fid @ '' /* '' @ fname @ '' */; };''"

definition source_line :: "string \<Rightarrow> string \<Rightarrow> string" where
  "source_line bid fname =
     [TAB, TAB, TAB, TAB] @ bid @ '' /* '' @ fname @ '' in Sources */,''"

definition child_line :: "string \<Rightarrow> string \<Rightarrow> string" where
  "child_line cid cname = [TAB, TAB, TAB, TAB] @ cid @ '' /* '' @ cname @ '' */,''"

section \<open>Sentinels and anchors\<close>

definition end_buildfile :: string where
  "end_buildfile = ''/* End PBXBuildFile section */''"

definition end_fileref :: string where
  "end_fileref = ''/* End PBXFileReference section */''"

definition end_group :: string where
  "end_group = ''/* End PBXGroup section */''"

definition sources_header :: string where
  "sources_header = ''A10000042 /* Sources */''"

definition isa_sources :: string where
  "isa_sources = ''isa = PBXSourcesBuildPhase''"

definition close_list :: string where
  "close_list = '');''"

definition close_record :: string where
  "close_record = ''};''"

section \<open>\<^verbatim>\<open>manual_fix.py\<close>\<close>

text \<open>Lines 26-34: the files to add, from the sorted scan \<open>found\<close> of the source tree.\<close>

definition curr_files :: "string list" where
  "curr_files = [''ZairyuMateApp.swift'', ''Constants.swift'', ''Extensions.swift'',
                 ''ColorTheme.swift'', ''Typography.swift'', ''Spacing.swift'']"

definition manual_new_files :: "string list \<Rightarrow> string list" where
  "manual_new_files found =
     filter (\<lambda>f. f \<notin> set curr_files) found @ [''ZairyuMateDataModel.xcdatamodeld'']"

text \<open>
  Lines 38-51: one file reference, one build file and one phase-membership line for every
  file name, with the identifiers \<^verbatim>\<open>gen_id(seed)\<close> and \<^verbatim>\<open>gen_id(seed+1)\<close>.
\<close>

fun manual_entries ::
  "(string \<Rightarrow> string) \<Rightarrow> nat \<Rightarrow> string list \<Rightarrow> string list \<times> string list \<times> string list" where
  "manual_entries md5 seed [] = ([], [], [])"
| "manual_entries md5 seed (fname # fs) =
     (let fid = gen_id md5 seed;
          bid = gen_id md5 (seed + 1);
          ftype = file_type fname
      in case manual_entries md5 (seed + 2) fs of
           (refs, builds, sources) \<Rightarrow>
             (ref_line fid fname ftype # refs,
              build_line bid fid fname # builds,
              source_line bid fname # sources))"

text \<open>
  Lines 77-109, entered at the header line of the Sources phase: the header and the three
  lines after it are copied, then the entries up to the first line with \<^verbatim>\<open>);\<close>, then the
  new lines, the closing line, and the rest of the record up to the first line with
  \<^verbatim>\<open>};\<close>. Reading \<^verbatim>\<open>lines[i]\<close> past the end raises IndexError. The result is the lines
  appended to the output and the lines not yet read.
\<close>

definition sources_block ::
  "string list \<Rightarrow> string list \<Rightarrow> py_error + (string list \<times> string list)" where
  "sources_block sources cur =
     (case cur of
        l0 # l1 # l2 # l3 # r3 \<Rightarrow>
          (let existing = takeWhile (\<lambda>l. \<not> py_in close_list l) r3;
               r4 = dropWhile (\<lambda>l. \<not> py_in close_list l) r3
           in case r4 of
                [] \<Rightarrow> Inl IndexError
              | closing # r5 \<Rightarrow>
                  (let rest_of_record = takeWhile (\<lambda>l. \<not> py_in close_record l) r5;
                       r6 = dropWhile (\<lambda>l. \<not> py_in close_record l) r5
                   in case r6 of
                        [] \<Rightarrow> Inl IndexError
                      | last_line # r7 \<Rightarrow>
                          Inr ([l0, l1, l2, l3] @ existing @ sources @ [closing]
                                 @ rest_of_record @ [last_line], r7)))
      | _ \<Rightarrow> Inl IndexError)"

definition emit :: "string list \<Rightarrow> py_error + string list \<Rightarrow> py_error + string list" where
  "emit out r = (case r of Inl e \<Rightarrow> Inl e | Inr more \<Rightarrow> Inr (out @ more))"

lemma sources_block_shorter:
  "sources_block sources cur = Inr (out, rest) \<Longrightarrow> length rest < length cur"
proof -
  have dw: "\<And>P (xs::string list). length (dropWhile P xs) \<le> length xs"
    by (simp add: length_dropWhile_le)
  assume a: "sources_block sources cur = Inr (out, rest)"
  then obtain l0 l1 l2 l3 r3 where cur: "cur = l0 # l1 # l2 # l3 # r3"
    by (auto simp: sources_block_def split: list.splits)
  from a cur obtain closing r5 where r4: "dropWhile (\<lambda>l. \<not> py_in close_list l) r3 = closing # r5"
    by (auto simp: sources_block_def Let_def split: list.splits)
  from a cur r4 obtain last_line where
    r6: "dropWhile (\<lambda>l. \<not> py_in close_record l) r5 = last_line # rest"
    by (auto simp: sources_block_def Let_def split: list.splits)
  have "length (last_line # rest) \<le> length r5" using dw[of _ r5] r6 by metis
  moreover have "length (closing # r5) \<le> length r3" using dw[of _ r3] r4 by metis
  ultimately show ?thesis using cur by simp
qed

text \<open>
  Lines 59-113, one pass through the body of the rewrite loop at the line \<open>line\<close> with the
  lines \<open>rest\<close> after it: the lines appended to the output and the lines not yet read. The
  test on line 77 reads \<^verbatim>\<open>lines[i+1]\<close> without a bound check.
\<close>

definition manual_step ::
  "string list \<Rightarrow> string list \<Rightarrow> string list \<Rightarrow> string \<Rightarrow> string list
     \<Rightarrow> py_error + (string list \<times> string list)" where
  "manual_step builds refs sources line rest =
     (if py_in end_buildfile line then Inr (builds @ [line], rest)
      else if py_in end_fileref line then Inr (refs @ [line], rest)
      else if py_in sources_header line then
        (case rest of
           [] \<Rightarrow> Inl IndexError
         | nxt # _ \<Rightarrow>
             if py_in isa_sources nxt then sources_block sources (line # rest)
             else Inr ([line], rest))
      else Inr ([line], rest))"

lemma manual_step_shorter:
  "manual_step builds refs sources line rest = Inr (out, rest') \<Longrightarrow> length rest' \<le> length rest"
  unfolding manual_step_def
  by (auto split: if_splits list.splits dest!: sources_block_shorter)

text \<open>Lines 56-113, the rewrite loop, on the lines from index \<open>i\<close> on.\<close>

function manual_loop ::
  "string list \<Rightarrow> string list \<Rightarrow> string list \<Rightarrow> string list \<Rightarrow> py_error + string list" where
  "manual_loop builds refs sources [] = Inr []"
| "manual_loop builds refs sources (line # rest) =
     (case manual_step builds refs sources line rest of
        Inl e \<Rightarrow> Inl e
      | Inr (out, rest') \<Rightarrow> emit out (manual_loop builds refs sources rest'))"
  by pat_completeness auto
termination
  by (relation "measure (\<lambda>(b, r, s, ls). length ls)")
     (auto dest: manual_step_shorter)

text \<open>Lines 38-116: the patched text, or the exception that ends the run before the write.\<close>

definition manual_fix_patch :: "(string \<Rightarrow> string) \<Rightarrow> string list \<Rightarrow> string \<Rightarrow> py_error + string" where
  "manual_fix_patch md5 new_files original =
     (case manual_entries md5 60000 new_files of
        (refs, builds, sources) \<Rightarrow>
          (case manual_loop builds refs sources (splitlines original) of
             Inl e \<Rightarrow> Inl e
           | Inr output \<Rightarrow> Inr (join_nl output @ [LF])))"

text \<open>Lines 124-125: the check made on the text just written.\<close>

definition manual_valid :: "string \<Rightarrow> bool" where
  "manual_valid result_text = (py_in end_buildfile result_text \<and> py_in end_fileref result_text)"

text \<open>
  The files the scripts read and write, each with the characters it stores: the manifest
  \<^verbatim>\<open>project.pbxproj\<close> and the backup copies beside it; and the texts written to the
  manifest during the run, oldest first.
\<close>

record disk =
  pbxproj :: string
  manual_backup :: "string option"
  ultimate_backup :: "string option"
  dated_backup :: "string option"
  writes :: "string list"

datatype outcome = Validated | ValidationFailed | Written | Exit1 | Raised py_error

definition write_pbxproj :: "string \<Rightarrow> disk \<Rightarrow> disk" where
  "write_pbxproj t d = d\<lparr>pbxproj := t, writes := writes d @ [t]\<rparr>"

text \<open>
  The whole script: read (line 18), back up (line 22), generate, rewrite, write (line 117),
  validate and restore (lines 124-129). An exception in the loop ends the run after the
  backup and before the write. A failed validation prints a message (line 128), the outcome
  \<open>ValidationFailed\<close>; the exit status of the script is not changed by it.
\<close>

definition manual_fix_main :: "(string \<Rightarrow> string) \<Rightarrow> string list \<Rightarrow> disk \<Rightarrow> disk \<times> outcome" where
  "manual_fix_main md5 found d =
     (let original = read_text (pbxproj d);
          d1 = d\<lparr>manual_backup := Some original\<rparr>
      in case manual_fix_patch md5 (manual_new_files found) original of
           Inl e \<Rightarrow> (d1, Raised e)
         | Inr result_text \<Rightarrow>
             (let d2 = write_pbxproj result_text d1
              in if manual_valid result_text then (d2, Validated)
                 else (write_pbxproj original d2, ValidationFailed)))"

section \<open>\<^verbatim>\<open>ULTIMATE_FIX.py\<close>\<close>

text \<open>
  A Python \<^verbatim>\<open>dict\<close> keeps its keys in insertion order; assigning to a key that is present
  replaces the value in place.
\<close>

fun dict_set :: "('k \<times> 'v) list \<Rightarrow> 'k \<Rightarrow> 'v \<Rightarrow> ('k \<times> 'v) list" where
  "dict_set [] k v = [(k, v)]"
| "dict_set ((k', v') # kvs) k v =
     (if k' = k then (k, v) # kvs else (k', v') # dict_set kvs k v)"

text \<open>Lines 34-50: the group identifiers the script knows, by group path.\<close>

definition BASE_GROUPS :: "(string \<times> string) list" where
  "BASE_GROUPS =
     [(''Core'', ''A10000024''),
      (''Core/Models'', ''A10000033''),
      (''Core/Services'', ''A10000034''),
      (''Core/Storage'', ''A10000035''),
      (''Core/Utilities'', ''A10000036''),
      (''Features'', ''A10000023''),
      (''Features/Home'', ''A10000028''),
      (''Features/Profile'', ''A10000029''),
      (''Features/Documents'', ''A10000030''),
      (''Features/Timeline'', ''A10000031''),
      (''Features/Settings'', ''A10000032''),
      (''UI'', ''A10000025''),
      (''UI/Components'', ''A10000037''),
      (''UI/Styles'', ''A10000038''),
      (''UI/Theme'', ''A10000039'')]"

text \<open>
  Lines 52-61: \<^verbatim>\<open>file_map\<close>, from the sorted scan \<open>found\<close> of the source tree, each entry
  the name of a Swift file and the directory that holds it, relative to the source root.
\<close>

definition ultimate_file_map :: "(string \<times> string) list \<Rightarrow> (string \<times> string) list" where
  "ultimate_file_map found =
     dict_set
       (fold (\<lambda>(name, parent) m. if name \<in> set curr_files then m else dict_set m name parent)
          found [])
       ''ZairyuMateDataModel.xcdatamodeld'' ''Core/Storage''"

text \<open>Lines 66-67: the group paths of the files that are not keys of \<^verbatim>\<open>BASE_GROUPS\<close>, sorted.\<close>

definition new_groups_needed :: "(string \<times> string) list \<Rightarrow> string list" where
  "new_groups_needed file_map =
     sort (remdups (filter (\<lambda>g. g \<notin> set (map fst BASE_GROUPS)) (map snd file_map)))"

record subgroup =
  sg_key :: string
  sg_id :: string
  sg_name :: string
  sg_path :: string
  sg_parent :: string
  sg_files :: "(string \<times> string) list"

text \<open>
  Lines 92-102: the identifier of the file at position \<open>k\<close> of \<^verbatim>\<open>file_map\<close> is
  \<^verbatim>\<open>gen_id(90000 + 2k)\<close>.
\<close>

definition file_ids :: "(string \<Rightarrow> string) \<Rightarrow> (string \<times> string) list \<Rightarrow> (string \<times> string \<times> string) list" where
  "file_ids md5 file_map =
     map (\<lambda>(k, (fname, group_path)). (fname, group_path, gen_id md5 (90000 + 2 * k)))
       (zip [0..<length file_map] file_map)"

text \<open>
  Lines 74-90 and 109-111: one subgroup for every path of \<^verbatim>\<open>new_groups_needed\<close>, with the
  identifier \<^verbatim>\<open>gen_id(80000 + k)\<close>, the last segment of the path as its name, the path
  without its last segment as its parent, and the files whose group path it is.
\<close>

definition make_subgroup :: "(string \<Rightarrow> string) \<Rightarrow> (string \<times> string) list \<Rightarrow> nat \<Rightarrow> string \<Rightarrow> subgroup" where
  "make_subgroup md5 file_map k group_path =
     (let parts = split_char CHR ''/'' group_path
      in \<lparr>sg_key = group_path,
          sg_id = gen_id md5 (80000 + k),
          sg_name = last parts,
          sg_path = last parts,
          sg_parent = join_char CHR ''/'' (butlast parts),
          sg_files = map (\<lambda>(fname, gp, fid). (fid, fname))
                       (filter (\<lambda>(fname, gp, fid). gp = group_path) (file_ids md5 file_map))\<rparr>)"

definition subgroups :: "(string \<Rightarrow> string) \<Rightarrow> (string \<times> string) list \<Rightarrow> subgroup list" where
  "subgroups md5 file_map =
     map (\<lambda>(k, g). make_subgroup md5 file_map k g)
       (zip [0..<length (new_groups_needed file_map)] (new_groups_needed file_map))"

text \<open>Line 89: \<^verbatim>\<open>BASE_GROUPS\<close> after the subgroups were entered.\<close>

definition all_groups :: "(string \<Rightarrow> string) \<Rightarrow> (string \<times> string) list \<Rightarrow> (string \<times> string) list" where
  "all_groups md5 file_map =
     fold (\<lambda>sg m. dict_set m (sg_key sg) (sg_id sg)) (subgroups md5 file_map) BASE_GROUPS"

text \<open>
  Lines 113-118: \<^verbatim>\<open>base_group_files[group_id]\<close>, the files whose group path is a key of
  \<^verbatim>\<open>BASE_GROUPS\<close> with that identifier and is not a new subgroup.
\<close>

definition base_group_files ::
  "(string \<Rightarrow> string) \<Rightarrow> (string \<times> string) list \<Rightarrow> string \<Rightarrow> (string \<times> string) list" where
  "base_group_files md5 file_map group_id =
     map (\<lambda>(fname, gp, fid). (fid, fname))
       (filter (\<lambda>(fname, gp, fid).
                  map_of (all_groups md5 file_map) gp = Some group_id
                  \<and> gp \<notin> set (map sg_key (subgroups md5 file_map)))
          (file_ids md5 file_map))"

text \<open>Lines 216-226: the definition of one new subgroup.\<close>

definition subgroup_definition :: "subgroup \<Rightarrow> string list" where
  "subgroup_definition sg =
     [[TAB, TAB] @ sg_id sg @ '' /* '' @ sg_name sg @ '' */ = {'',
      [TAB, TAB, TAB] @ ''isa = PBXGroup;'',
      [TAB, TAB, TAB] @ ''children = (''] @
     map (\<lambda>(fid, fname). child_line fid fname) (sg_files sg) @
     [[TAB, TAB, TAB] @ '');'',
      [TAB, TAB, TAB] @ ''path = '' @ sg_path sg @ '';'',
      [TAB, TAB, TAB] @ ''sourceTree = '' @ [DQ] @ ''<group>'' @ [DQ] @ '';'',
      [TAB, TAB] @ ''};'']"

definition subgroup_definitions :: "subgroup list \<Rightarrow> string list" where
  "subgroup_definitions sgs =
     concat (map (\<lambda>key. case find (\<lambda>sg. sg_key sg = key) sgs of
                          None \<Rightarrow> []
                        | Some sg \<Rightarrow> subgroup_definition sg)
               (sort (map sg_key sgs)))"

text \<open>
  Lines 174-212, entered with \<^verbatim>\<open>lines[i:]\<close> = \<open>cur\<close> once the header test on the variable
  \<^verbatim>\<open>line\<close> and the test on \<^verbatim>\<open>lines[i+1]\<close> have passed: \<^verbatim>\<open>line\<close> and the next line are
  emitted, then the lines up to and with \<^verbatim>\<open>children = (\<close>, the children up to the first
  line with \<^verbatim>\<open>);\<close>, the new children, the closing line and the rest of the record up to
  the first line with \<^verbatim>\<open>};\<close>.
\<close>

definition group_block ::
  "string list \<Rightarrow> string \<Rightarrow> string list \<Rightarrow> py_error + (string list \<times> string list)" where
  "group_block new_children line cur =
     (case cur of
        l0 # l1 # r1 \<Rightarrow>
          (let before = takeWhile (\<lambda>l. \<not> py_in ''children = ('' l) r1;
               r2 = dropWhile (\<lambda>l. \<not> py_in ''children = ('' l) r1
           in case r2 of
                [] \<Rightarrow> Inl IndexError
              | opening # r3 \<Rightarrow>
                  (let existing = takeWhile (\<lambda>l. \<not> py_in close_list l) r3;
                       r4 = dropWhile (\<lambda>l. \<not> py_in close_list l) r3
                   in case r4 of
                        [] \<Rightarrow> Inl IndexError
                      | closing # r5 \<Rightarrow>
                          (let rest_of_record = takeWhile (\<lambda>l. \<not> py_in close_record l) r5;
                               r6 = dropWhile (\<lambda>l. \<not> py_in close_record l) r5
                           in case r6 of
                                [] \<Rightarrow> Inl IndexError
                              | last_line # r7 \<Rightarrow>
                                  Inr ([line, l1] @ before @ [opening] @ existing @ new_children
                                         @ [closing] @ rest_of_record @ [last_line], r7))))
      | _ \<Rightarrow> Inl IndexError)"

text \<open>The tests of lines 172 and 174, on the variable \<^verbatim>\<open>line\<close> and on \<^verbatim>\<open>lines[i+1]\<close>.\<close>

definition group_header :: "string \<Rightarrow> string \<Rightarrow> string list \<Rightarrow> bool" where
  "group_header group_id line cur =
     (py_in (group_id @ '' /* '') line \<and> py_in ''= {'' line
      \<and> (case cur of l0 # l1 # r1 \<Rightarrow> py_in ''isa = PBXGroup'' l1 | _ \<Rightarrow> False))"

text \<open>Lines 193-201: the children added to the group with path \<open>group_path\<close>.\<close>

definition new_children ::
  "(string \<Rightarrow> string) \<Rightarrow> (string \<times> string) list \<Rightarrow> string \<Rightarrow> string \<Rightarrow> string list" where
  "new_children md5 file_map group_path group_id =
     map (\<lambda>(fid, fname). child_line fid fname) (base_group_files md5 file_map group_id) @
     map (\<lambda>sg. child_line (sg_id sg) (sg_name sg))
       (filter (\<lambda>sg. sg_parent sg = group_path) (subgroups md5 file_map))"

text \<open>
  Lines 171-212, the \<^verbatim>\<open>for\<close> loop over \<^verbatim>\<open>BASE_GROUPS.items()\<close>. Its \<^verbatim>\<open>continue\<close>
  (line 212) goes on with the next group: the variable \<^verbatim>\<open>line\<close> stays what it was, and
  \<^verbatim>\<open>i\<close> stays behind the record just copied. The state is the output of the pass so far
  and \<^verbatim>\<open>lines[i:]\<close>.
\<close>

fun group_pass ::
  "(string \<Rightarrow> string) \<Rightarrow> (string \<times> string) list \<Rightarrow> string \<Rightarrow> (string \<times> string) list
     \<Rightarrow> string list \<times> string list \<Rightarrow> py_error + (string list \<times> string list)" where
  "group_pass md5 file_map line [] st = Inr st"
| "group_pass md5 file_map line ((group_path, group_id) # groups) (out, cur) =
     (if group_header group_id line cur then
        (case group_block (new_children md5 file_map group_path group_id) line cur of
           Inl e \<Rightarrow> Inl e
         | Inr (copied, cur') \<Rightarrow> group_pass md5 file_map line groups (out @ copied, cur'))
      else group_pass md5 file_map line groups (out, cur))"

text \<open>
  Lines 130-229, one pass through the body of the rewrite loop at the line \<open>line\<close> with the
  lines \<open>rest\<close> after it. After the \<^verbatim>\<open>for\<close> loop the pass always reaches lines 215-229:
  the subgroup definitions if \<^verbatim>\<open>line\<close> ends the group section, then \<^verbatim>\<open>line\<close> itself, and
  \<^verbatim>\<open>i += 1\<close>.
\<close>

definition ultimate_step ::
  "(string \<Rightarrow> string) \<Rightarrow> (string \<times> string) list \<Rightarrow> string \<Rightarrow> string list
     \<Rightarrow> py_error + (string list \<times> string list)" where
  "ultimate_step md5 file_map line rest =
     (case manual_entries md5 90000 (map fst file_map) of
        (refs, builds, sources) \<Rightarrow>
          if py_in end_buildfile line then Inr (builds @ [line], rest)
          else if py_in end_fileref line then Inr (refs @ [line], rest)
          else if py_in sources_header line
                  \<and> (case rest of [] \<Rightarrow> False | nxt # _ \<Rightarrow> py_in isa_sources nxt) then
            sources_block sources (line # rest)
          else
            (case group_pass md5 file_map line (all_groups md5 file_map) ([], line # rest) of
               Inl e \<Rightarrow> Inl e
             | Inr (out, cur) \<Rightarrow>
                 Inr (out
                      @ (if py_in end_group line
                         then subgroup_definitions (subgroups md5 file_map) else [])
                      @ [line],
                      drop 1 cur)))"

lemma group_block_shape:
  assumes "group_block children line cur = Inr (out, rest)"
  shows "\<exists>l0 pre post. out = line # pre @ children @ post \<and> cur = l0 # pre @ post @ rest
           \<and> post \<noteq> [] \<and> py_in close_list (hd post)"
proof -
  from assms obtain l0 l1 r1 where cur: "cur = l0 # l1 # r1"
    by (cases cur; cases "tl cur") (auto simp: group_block_def)
  let ?C = "\<lambda>l. \<not> py_in ''children = ('' l"
  let ?P = "\<lambda>l. \<not> py_in close_list l"
  let ?Q = "\<lambda>l. \<not> py_in close_record l"
  have a: "(case dropWhile ?C r1 of
              [] \<Rightarrow> Inl IndexError
            | open_line # r3 \<Rightarrow>
                (case dropWhile ?P r3 of
                   [] \<Rightarrow> Inl IndexError
                 | closing # r5 \<Rightarrow>
                     (case dropWhile ?Q r5 of
                        [] \<Rightarrow> Inl IndexError
                      | last_line # r7 \<Rightarrow>
                          Inr ([line, l1] @ takeWhile ?C r1 @ [open_line] @ takeWhile ?P r3 @ children
                                 @ [closing] @ takeWhile ?Q r5 @ [last_line], r7)))) = Inr (out, rest)"
    using assms unfolding cur group_block_def Let_def list.case .
  then obtain open_line r3 where r2: "dropWhile ?C r1 = open_line # r3"
    by (cases "dropWhile ?C r1") simp_all
  with a obtain closing r5 where r4: "dropWhile ?P r3 = closing # r5"
    by (cases "dropWhile ?P r3") simp_all
  with a r2 obtain last_line r7 where r6: "dropWhile ?Q r5 = last_line # r7"
    by (cases "dropWhile ?Q r5") simp_all
  from a r2 r4 r6 have out: "out = [line, l1] @ takeWhile ?C r1 @ [open_line] @ takeWhile ?P r3 @ children
                                 @ [closing] @ takeWhile ?Q r5 @ [last_line]" and r7: "r7 = rest"
    by simp_all
  have "r1 = takeWhile ?C r1 @ open_line # r3"
    using r2 takeWhile_dropWhile_id[of ?C r1] by simp
  moreover have "r3 = takeWhile ?P r3 @ closing # r5"
    using r4 takeWhile_dropWhile_id[of ?P r3] by simp
  moreover have "r5 = takeWhile ?Q r5 @ last_line # rest"
    using r6 r7 takeWhile_dropWhile_id[of ?Q r5] by simp
  ultimately have c: "cur = l0 # (l1 # takeWhile ?C r1 @ [open_line] @ takeWhile ?P r3)
                       @ ([closing] @ takeWhile ?Q r5 @ [last_line]) @ rest"
    using cur by simp
  have o: "out = line # (l1 # takeWhile ?C r1 @ [open_line] @ takeWhile ?P r3) @ children
                       @ ([closing] @ takeWhile ?Q r5 @ [last_line])"
    using out by simp
  from r4 hd_dropWhile[of ?P r3] have "py_in close_list closing" by simp
  then have p: "[closing] @ takeWhile ?Q r5 @ [last_line] \<noteq> []
      \<and> py_in close_list (hd ([closing] @ takeWhile ?Q r5 @ [last_line]))"
    by simp
  from o c p show ?thesis by blast
qed

lemma group_block_shorter:
  "group_block children line cur = Inr (out, rest) \<Longrightarrow> length rest < length cur"
  by (drule group_block_shape) auto

lemma group_pass_shorter:
  "group_pass md5 file_map line groups (out, cur) = Inr (out', cur') \<Longrightarrow> length cur' \<le> length cur"
proof (induction groups arbitrary: out cur)
  case Nil
  then show ?case by simp
next
  case (Cons g groups)
  obtain group_path group_id where g: "g = (group_path, group_id)" by (cases g)
  show ?case
  proof (cases "group_header group_id line cur")
    case False
    with Cons g show ?thesis by simp
  next
    case True
    with Cons.prems g obtain copied cur1 where
      gb: "group_block (new_children md5 file_map group_path group_id) line cur = Inr (copied, cur1)"
      and gp: "group_pass md5 file_map line groups (out @ copied, cur1) = Inr (out', cur')"
      by (cases "group_block (new_children md5 file_map group_path group_id) line cur") auto
    from Cons.IH[OF gp] group_block_shorter[OF gb] show ?thesis by simp
  qed
qed

lemma ultimate_step_shorter:
  assumes "ultimate_step md5 file_map line rest = Inr (out, rest')"
  shows "length rest' \<le> length rest"
proof -
  obtain refs builds sources where e: "manual_entries md5 90000 (map fst file_map) = (refs, builds, sources)"
    by (cases "manual_entries md5 90000 (map fst file_map)")
  consider (a) "rest' = rest"
    | (s) "sources_block sources (line # rest) = Inr (out, rest')"
    | (g) out1 cur1 where
        "group_pass md5 file_map line (all_groups md5 file_map) ([], line # rest) = Inr (out1, cur1)"
        "rest' = drop 1 cur1"
    using assms unfolding ultimate_step_def e
    by (simp split: if_splits sum.splits prod.splits) 
  then show ?thesis
  proof cases
    case a
    then show ?thesis by simp
  next
    case s
    from sources_block_shorter[OF s] show ?thesis by simp
  next
    case g
    from group_pass_shorter[OF g(1)] g(2) show ?thesis by simp
  qed
qed

text \<open>Lines 127-229, the rewrite loop, on the lines from index \<open>i\<close> on.\<close>

function ultimate_loop ::
  "(string \<Rightarrow> string) \<Rightarrow> (string \<times> string) list \<Rightarrow> string list \<Rightarrow> py_error + string list" where
  "ultimate_loop md5 file_map [] = Inr []"
| "ultimate_loop md5 file_map (line # rest) =
     (case ultimate_step md5 file_map line rest of
        Inl e \<Rightarrow> Inl e
      | Inr (out, rest') \<Rightarrow> emit out (ultimate_loop md5 file_map rest'))"
  by pat_completeness auto
termination
  by (relation "measure (\<lambda>(m, f, ls). length ls)")
     (auto dest: ultimate_step_shorter)

text \<open>Lines 21 and 127-232: the patched text for the text read from the backup.\<close>

definition ultimate_patch ::
  "(string \<Rightarrow> string) \<Rightarrow> (string \<times> string) list \<Rightarrow> string \<Rightarrow> py_error + string" where
  "ultimate_patch md5 file_map text =
     (case ultimate_loop md5 file_map (splitlines text) of
        Inl e \<Rightarrow> Inl e
      | Inr output \<Rightarrow> Inr (join_nl output @ [LF]))"

text \<open>Line 239: the check made on the text just written.\<close>

definition ultimate_valid :: "string \<Rightarrow> bool" where
  "ultimate_valid result = (py_in end_buildfile result \<and> py_in end_group result)"

text \<open>
  The whole script. The document is read from the backup \<^verbatim>\<open>project.pbxproj.manual_backup\<close>
  (lines 19-20), not from the manifest; it is copied to
  \<^verbatim>\<open>project.pbxproj.ULTIMATE_BACKUP\<close> (line 23), rewritten, written to the manifest
  (line 233), validated, and on failure written to the manifest as it was read (line 247),
  with a printed message and no change of the exit status.
\<close>

definition ultimate_fix_main ::
  "(string \<Rightarrow> string) \<Rightarrow> (string \<times> string) list \<Rightarrow> disk \<Rightarrow> disk \<times> outcome" where
  "ultimate_fix_main md5 found d =
     (case manual_backup d of
        None \<Rightarrow> (d, Raised FileNotFoundError)
      | Some stored \<Rightarrow>
          (let text = read_text stored;
               d1 = d\<lparr>ultimate_backup := Some text\<rparr>
           in case ultimate_patch md5 (ultimate_file_map found) text of
                Inl e \<Rightarrow> (d1, Raised e)
              | Inr result \<Rightarrow>
                  (let d2 = write_pbxproj result d1
                   in if ultimate_valid result then (d2, Validated)
                      else (write_pbxproj text d2, ValidationFailed))))"

section \<open>Facts about strings and lines\<close>

lemma py_in_Nil [simp]: "py_in pat [] = (pat = [])"
  by (simp add: py_in_def)

lemma py_in_Cons [simp]: "py_in pat (c # cs) = (prefix pat (c # cs) \<or> py_in pat cs)"
  by (simp add: py_in_def sublist_Cons_right)

lemma py_in_iff: "py_in pat s = (\<exists>a b. s = a @ pat @ b)"
  by (simp add: py_in_def sublist_def)

lemma py_in_append_left: "py_in pat s \<Longrightarrow> py_in pat (a @ s)"
  unfolding py_in_iff by (metis append.assoc)

lemma py_in_append_right: "py_in pat s \<Longrightarrow> py_in pat (s @ b)"
  unfolding py_in_iff by (metis append.assoc)

lemma py_in_join_char: "l \<in> set ls \<Longrightarrow> py_in pat l \<Longrightarrow> py_in pat (join_char sep ls)"
proof (induction sep ls rule: join_char.induct)
  case (1 sep)
  then show ?case by simp
next
  case (2 sep l')
  then show ?case by simp
next
  case (3 sep l' m ls)
  show ?case
  proof (cases "l = l'")
    case True
    with 3 have "py_in pat (l' @ (sep # join_char sep (m # ls)))"
      by (intro py_in_append_right) simp
    then show ?thesis by simp
  next
    case False
    with 3 have "py_in pat (join_char sep (m # ls))" by auto
    then have "py_in pat ((l' @ [sep]) @ join_char sep (m # ls))"
      by (rule py_in_append_left)
    then show ?thesis by simp
  qed
qed

lemma join_char_terminated:
  "ls \<noteq> [] \<Longrightarrow> join_char sep ls @ [sep] = concat (map (\<lambda>l. l @ [sep]) ls)"
  by (induction sep ls rule: join_char.induct) simp_all

lemma emit_Inr: "emit out r = Inr res \<Longrightarrow> \<exists>more. r = Inr more \<and> res = out @ more"
  by (auto simp: emit_def split: sum.splits)

lemma sources_block_shape:
  assumes "sources_block sources cur = Inr (out, rest)"
  shows "\<exists>pre post. out = pre @ sources @ post \<and> cur = pre @ post @ rest"
proof -
  from assms obtain l0 l1 l2 l3 r3 where cur: "cur = l0 # l1 # l2 # l3 # r3"
    by (auto simp: sources_block_def split: list.splits)
  let ?P = "\<lambda>l. \<not> py_in close_list l"
  let ?Q = "\<lambda>l. \<not> py_in close_record l"
  from assms cur obtain closing r5 where r4: "dropWhile ?P r3 = closing # r5"
    by (auto simp: sources_block_def Let_def split: list.splits)
  from assms cur r4 obtain last_line where r6: "dropWhile ?Q r5 = last_line # rest"
    and out: "out = [l0, l1, l2, l3] @ takeWhile ?P r3 @ sources @ [closing] @ takeWhile ?Q r5 @ [last_line]"
    by (auto simp: sources_block_def Let_def split: list.splits)
  have "r3 = takeWhile ?P r3 @ closing # r5"
    using r4 takeWhile_dropWhile_id[of ?P r3] by simp
  moreover have "r5 = takeWhile ?Q r5 @ last_line # rest"
    using r6 takeWhile_dropWhile_id[of ?Q r5] by simp
  ultimately have "cur = ([l0, l1, l2, l3] @ takeWhile ?P r3) @ ([closing] @ takeWhile ?Q r5 @ [last_line]) @ rest"
    using cur by simp
  with out show ?thesis by (metis append.assoc)
qed

lemma manual_step_cases:
  assumes "manual_step builds refs sources line rest = Inr (out, rest')"
  shows "(out = builds @ [line] \<and> rest' = rest) \<or> (out = refs @ [line] \<and> rest' = rest)
       \<or> sources_block sources (line # rest) = Inr (out, rest') \<or> (out = [line] \<and> rest' = rest)"
proof (cases "py_in end_buildfile line")
  case True
  with assms show ?thesis by (simp add: manual_step_def)
next
  case nb: False
  show ?thesis
  proof (cases "py_in end_fileref line")
    case True
    with nb assms show ?thesis by (simp add: manual_step_def)
  next
    case nr: False
    show ?thesis
    proof (cases "py_in sources_header line")
      case False
      with nb nr assms show ?thesis by (simp add: manual_step_def)
    next
      case True
      show ?thesis
      proof (cases rest)
        case Nil
        with nb nr True assms show ?thesis by (simp add: manual_step_def)
      next
        case (Cons nxt r)
        with nb nr True assms show ?thesis
          by (cases "py_in isa_sources nxt") (simp_all add: manual_step_def)
      qed
    qed
  qed
qed

lemma manual_step_shape:
  assumes "manual_step builds refs sources line rest = Inr (out, rest')"
  shows "\<exists>pre ins post. ins \<in> {[], builds, refs, sources} \<and> out = pre @ ins @ post
           \<and> line # rest = pre @ post @ rest'"
proof -
  from manual_step_cases[OF assms]
  consider (b) "out = builds @ [line]" "rest' = rest"
    | (r) "out = refs @ [line]" "rest' = rest"
    | (s) "sources_block sources (line # rest) = Inr (out, rest')"
    | (c) "out = [line]" "rest' = rest"
    by blast
  then show ?thesis
  proof cases
    case b
    show ?thesis
      by (rule exI[of _ "[]"], rule exI[of _ builds], rule exI[of _ "[line]"]) (simp add: b)
  next
    case r
    show ?thesis
      by (rule exI[of _ "[]"], rule exI[of _ refs], rule exI[of _ "[line]"]) (simp add: r)
  next
    case s
    from sources_block_shape[OF s] obtain pre post where
      "out = pre @ sources @ post" "line # rest = pre @ post @ rest'" by blast
    then show ?thesis
      by (intro exI[of _ pre] exI[of _ sources] exI[of _ post]) simp
  next
    case c
    show ?thesis
      by (rule exI[of _ "[]"], rule exI[of _ "[]"], rule exI[of _ "[line]"]) (simp add: c)
  qed
qed

lemma manual_loop_Cons_Inr:
  assumes "manual_loop builds refs sources (line # rest) = Inr res"
  shows "\<exists>out rest' more. manual_step builds refs sources line rest = Inr (out, rest')
           \<and> manual_loop builds refs sources rest' = Inr more \<and> res = out @ more"
  using assms by (auto split: sum.splits dest!: emit_Inr)


lemma manual_loop_frame:
  "manual_loop builds refs sources ls = Inr res \<Longrightarrow>
     subseq ls res \<and> set res \<subseteq> set ls \<union> set builds \<union> set refs \<union> set sources"
proof (induction ls arbitrary: res rule: length_induct)
  case (1 ls)
  show ?case
  proof (cases ls)
    case Nil
    with 1(2) show ?thesis by simp
  next
    case (Cons line rest)
    from manual_loop_Cons_Inr[OF 1(2)[unfolded Cons]] obtain out rest' more where
      st: "manual_step builds refs sources line rest = Inr (out, rest')"
      and lp: "manual_loop builds refs sources rest' = Inr more" and res: "res = out @ more"
      by blast
    from manual_step_shorter[OF st] Cons have "length rest' < length ls" by simp
    with 1(1) lp have ih: "subseq rest' more"
      "set more \<subseteq> set rest' \<union> set builds \<union> set refs \<union> set sources" by blast+
    from manual_step_shape[OF st] obtain pre ins post where
      ins: "ins \<in> {[], builds, refs, sources}" and out: "out = pre @ ins @ post"
      and ls: "line # rest = pre @ post @ rest'" by blast
    have "subseq (pre @ post) (pre @ ins @ post)"
      by (intro list_emb_append_mono subseq_order.order_refl list_emb_append2) 
    then have "subseq ((pre @ post) @ rest') ((pre @ ins @ post) @ more)"
      using ih(1) by (rule list_emb_append_mono)
    then have a: "subseq ls res" using ls out res Cons by simp
    have "set ins \<subseteq> set builds \<union> set refs \<union> set sources" using ins by auto
    moreover have "set pre \<union> set post \<union> set rest' = set ls"
      using ls Cons by (metis set_append sup_assoc)
    ultimately have b: "set res \<subseteq> set ls \<union> set builds \<union> set refs \<union> set sources"
      using ih(2) out res by auto
    from a b show ?thesis ..
  qed
qed

lemma manual_loop_no_entries:
  "manual_loop [] [] [] ls = Inr res \<Longrightarrow> res = ls"
proof (induction ls arbitrary: res rule: length_induct)
  case (1 ls)
  show ?case
  proof (cases ls)
    case Nil
    with 1(2) show ?thesis by simp
  next
    case (Cons line rest)
    from manual_loop_Cons_Inr[OF 1(2)[unfolded Cons]] obtain out rest' more where
      st: "manual_step [] [] [] line rest = Inr (out, rest')"
      and lp: "manual_loop [] [] [] rest' = Inr more" and res: "res = out @ more"
      by blast
    from manual_step_shorter[OF st] Cons have "length rest' < length ls" by simp
    with 1(1) lp have ih: "more = rest'" by blast
    from manual_step_shape[OF st] obtain pre ins post where
      ins: "ins \<in> {[], [], [], []}" and out: "out = pre @ ins @ post"
      and ls: "line # rest = pre @ post @ rest'" by blast
    from ins have "ins = []" by simp
    with out ls res ih Cons show ?thesis by simp
  qed
qed

lemma splitlines_line_LF:
  "\<forall>c \<in> set l. \<not> is_break c \<Longrightarrow> splitlines (l @ LF # rest) = l # splitlines rest"
proof (induction l)
  case Nil
  have "is_break LF" by (simp add: is_break_def LF_def)
  then show ?case by (cases rest) (simp_all add: LF_def)
next
  case (Cons c l)
  then have nb: "\<not> is_break c" and ih: "splitlines (l @ LF # rest) = l # splitlines rest" by simp_all
  from nb have ncr: "c \<noteq> CHR 0x0D" by (auto simp: is_break_def)
  obtain d ds where dd: "l @ LF # rest = d # ds" by (cases "l @ LF # rest") simp_all
  have "splitlines (c # d # ds) = (c # l) # splitlines rest"
    using nb ncr ih dd by simp
  then show ?case using dd by simp
qed

lemma splitlines_terminated:
  "\<forall>l \<in> set ls. \<forall>c \<in> set l. \<not> is_break c \<Longrightarrow> splitlines (concat (map (\<lambda>l. l @ [LF]) ls)) = ls"
proof (induction ls)
  case Nil
  then show ?case by simp
next
  case (Cons l ls)
  then have "splitlines (l @ LF # concat (map (\<lambda>l. l @ [LF]) ls))
               = l # splitlines (concat (map (\<lambda>l. l @ [LF]) ls))"
    by (intro splitlines_line_LF) simp
  with Cons show ?case by simp
qed

lemma splitlines_join_nl:
  "ls \<noteq> [] \<Longrightarrow> \<forall>l \<in> set ls. \<forall>c \<in> set l. \<not> is_break c \<Longrightarrow> splitlines (join_nl ls @ [LF]) = ls"
  by (simp add: join_char_terminated splitlines_terminated)

lemma join_split_char: "join_char sep (split_char sep s) = s"
proof (induction s)
  case Nil
  then show ?case by simp
next
  case (Cons c s)
  obtain l ls where sp: "split_char sep s = l # ls"
    by (cases "split_char sep s") (cases s, simp_all split: if_splits list.splits)
  show ?case
  proof (cases "c = sep")
    case True
    with Cons sp show ?thesis by simp
  next
    case False
    with Cons sp show ?thesis by (cases ls) simp_all
  qed
qed

lemma manual_loop_completes:
  "\<forall>l \<in> set ls. \<not> py_in sources_header l \<Longrightarrow> \<exists>res. manual_loop builds refs sources ls = Inr res"
proof (induction ls)
  case Nil
  then show ?case by simp
next
  case (Cons line rest)
  then obtain more where more: "manual_loop builds refs sources rest = Inr more" by auto
  from Cons.prems have "\<not> py_in sources_header line" by simp
  then have "\<exists>out. manual_step builds refs sources line rest = Inr (out, rest)"
    by (simp add: manual_step_def)
  then obtain out where "manual_step builds refs sources line rest = Inr (out, rest)" ..
  with more show ?case by (simp add: emit_def)
qed

lemmas sentinel_defs =
  end_buildfile_def end_fileref_def end_group_def sources_header_def isa_sources_def
  close_list_def close_record_def

lemmas char_defs = LF_def TAB_def DQ_def is_break_def

lemmas ultimate_eval =
  ultimate_step_def all_groups_def subgroups_def new_groups_needed_def BASE_GROUPS_def
  group_header_def group_block_def new_children_def base_group_files_def file_ids_def
  subgroup_definitions_def emit_def sentinel_defs Let_def

section \<open>Substrings and lines\<close>

lemma py_in_across_sep:
  assumes "py_in pat (a @ sep # b)" and "sep \<notin> set pat"
  shows "py_in pat a \<or> py_in pat b"
proof -
  from assms(1) have "sublist pat (a @ (sep # b))" by (simp add: py_in_def)
  then consider "sublist pat a" | "sublist pat (sep # b)"
    | xs1 xs2 where "pat = xs1 @ xs2" "suffix xs1 a" "prefix xs2 (sep # b)"
    unfolding sublist_append by blast
  then show ?thesis
  proof cases
    case 1
    then show ?thesis by (simp add: py_in_def)
  next
    case 2
    then have "prefix pat (sep # b) \<or> sublist pat b" by (simp add: sublist_Cons_right)
    moreover have "\<not> prefix pat (sep # b) \<or> pat = []"
      using assms(2) by (cases pat) auto
    ultimately show ?thesis by (auto simp: py_in_def)
  next
    case 3
    show ?thesis
    proof (cases xs2)
      case Nil
      with 3 have "suffix pat a" by simp
      then show ?thesis by (simp add: py_in_def)
    next
      case (Cons x xs)
      with 3(3) have "x = sep" by simp
      with Cons 3(1) assms(2) show ?thesis by simp
    qed
  qed
qed

lemma py_in_concat_lines:
  "pat \<noteq> [] \<Longrightarrow> sep \<notin> set pat \<Longrightarrow> py_in pat (concat (map (\<lambda>l. l @ [sep]) ls))
     \<Longrightarrow> \<exists>l \<in> set ls. py_in pat l"
proof (induction ls)
  case Nil
  then show ?case by simp
next
  case (Cons l ls)
  from Cons.prems(3) have "py_in pat (l @ sep # concat (map (\<lambda>l. l @ [sep]) ls))" by simp
  from py_in_across_sep[OF this Cons.prems(2)] Cons show ?case by auto
qed

lemma py_in_join_terminated:
  assumes "pat \<noteq> []" "sep \<notin> set pat" "py_in pat (join_char sep ls @ [sep])"
  shows "\<exists>l \<in> set ls. py_in pat l"
proof (cases ls)
  case Nil
  with assms show ?thesis by (cases pat) auto
next
  case (Cons a list)
  then have "join_char sep ls @ [sep] = concat (map (\<lambda>l. l @ [sep]) ls)"
    by (intro join_char_terminated) simp
  with assms py_in_concat_lines show ?thesis by metis
qed

lemma splitlines_nonempty: "t \<noteq> [] \<Longrightarrow> splitlines t \<noteq> []"
  by (induction t rule: splitlines.induct) (auto split: list.splits)

lemma prefix_first_line:
  "\<forall>c \<in> set p. \<not> is_break c \<Longrightarrow> prefix p t \<Longrightarrow> splitlines t = l # ls \<Longrightarrow> prefix p l"
proof (induction p arbitrary: t l ls)
  case Nil
  then show ?case by simp
next
  case (Cons x p)
  from Cons.prems(2) obtain t' where t: "t = x # t'" and pt: "prefix p t'"
    by (cases t) auto
  from Cons.prems(1) have nb: "\<not> is_break x" and ncr: "x \<noteq> CHR 0x0D" by (auto simp: is_break_def)
  show ?case
  proof (cases t')
    case Nil
    with pt have "p = []" by simp
    with Nil t Cons.prems(3) nb show ?thesis by simp
  next
    case (Cons d ds)
    then have "splitlines t' \<noteq> []" by (intro splitlines_nonempty) simp
    then obtain l' ls' where sp: "splitlines t' = l' # ls'" by (cases "splitlines t'") auto
    with Cons t nb ncr Cons.prems(3) have l: "l = x # l'" by simp
    from Cons.IH[OF _ pt sp] Cons.prems(1) have "prefix p l'" by simp
    with l show ?thesis by simp
  qed
qed

lemma py_in_splitlines:
  "pat \<noteq> [] \<Longrightarrow> \<forall>c \<in> set pat. \<not> is_break c \<Longrightarrow> py_in pat t \<Longrightarrow> \<exists>l \<in> set (splitlines t). py_in pat l"
proof (induction t rule: splitlines.induct)
  case 1
  then show ?case by simp
next
  case (2 c)
  then have "pat = [c]" by (cases pat) auto
  with 2 show ?case by simp
next
  case (3 c d ds)
  have first: "\<not> is_break (hd pat)" using 3(4,5) by (cases pat) auto
  have nopre: "is_break x \<Longrightarrow> \<not> prefix pat (x # xs)" for x xs
    using first 3(4) by (cases pat) auto
  have lf: "is_break LF" by (simp add: is_break_def LF_def)
  have cr: "is_break (CHR 0x0D)" by (simp add: is_break_def)
  show ?case
  proof (cases "c = CHR 0x0D \<and> d = LF")
    case True
    with 3(6) nopre[of c] nopre[of d] cr lf have "py_in pat ds" by auto
    with 3(1)[OF True 3(4,5)] True show ?thesis by auto
  next
    case ncrlf: False
    show ?thesis
    proof (cases "is_break c")
      case True
      with 3(6) nopre[of c] have "py_in pat (d # ds)" by simp
      with 3(2)[OF ncrlf True 3(4,5)] ncrlf True show ?thesis by auto
    next
      case False
      have "splitlines (d # ds) \<noteq> []" by (intro splitlines_nonempty) simp
      then obtain l ls where sp: "splitlines (d # ds) = l # ls"
        by (cases "splitlines (d # ds)") auto
      with ncrlf False have all: "splitlines (c # d # ds) = (c # l) # ls" by simp
      from 3(6) consider "prefix pat (c # d # ds)" | "py_in pat (d # ds)" by auto
      then show ?thesis
      proof cases
        case 1
        then obtain p' where pat: "pat = c # p'" and pp: "prefix p' (d # ds)"
          using 3(4) by (cases pat) auto
        from prefix_first_line[OF _ pp sp] 3(5) pat have "prefix p' l" by simp
        with pat have "prefix pat (c # l)" by simp
        then have "py_in pat (c # l)" by (simp add: py_in_def)
        with all show ?thesis by auto
      next
        case 2
        with 3(3)[OF ncrlf False 3(4,5)] sp obtain l' where l': "l' \<in> set (l # ls)" "py_in pat l'"
          by auto
        show ?thesis
        proof (cases "l' = l")
          case True
          with l' have "py_in pat (c # l)" by simp
          with all show ?thesis by auto
        next
          case False
          with l' all show ?thesis by auto
        qed
      qed
    qed
  qed
qed

section \<open>Lines kept by the rewrite loops\<close>

text \<open>
  No line of \<open>ls\<close> passes the header test of line 172 of \<^verbatim>\<open>ULTIMATE_FIX.py\<close> for a group
  of \<^verbatim>\<open>BASE_GROUPS\<close>: the run rewrites no group record.
\<close>

definition rewrites_no_group :: "(string \<Rightarrow> string) \<Rightarrow> (string \<times> string) list \<Rightarrow> string list \<Rightarrow> bool" where
  "rewrites_no_group md5 file_map ls =
     list_all (\<lambda>l. list_all (\<lambda>(group_path, group_id).
                         \<not> (py_in (group_id @ '' /* '') l \<and> py_in ''= {'' l))
                       (all_groups md5 file_map)) ls"

text \<open>The lines \<^verbatim>\<open>ULTIMATE_FIX.py\<close> generates for a file map.\<close>

definition ultimate_inserted :: "(string \<Rightarrow> string) \<Rightarrow> (string \<times> string) list \<Rightarrow> string set" where
  "ultimate_inserted md5 file_map =
     (case manual_entries md5 90000 (map fst file_map) of
        (refs, builds, sources) \<Rightarrow>
          set refs \<union> set builds \<union> set sources
          \<union> set (subgroup_definitions (subgroups md5 file_map)))"

text \<open>The blocks of generated lines of \<^verbatim>\<open>manual_fix.py\<close> and \<^verbatim>\<open>ULTIMATE_FIX.py\<close>.\<close>

definition manual_blocks :: "(string \<Rightarrow> string) \<Rightarrow> string list \<Rightarrow> string list list" where
  "manual_blocks md5 new_files =
     (case manual_entries md5 60000 new_files of (refs, builds, sources) \<Rightarrow> [builds, refs, sources])"

definition ultimate_blocks :: "(string \<Rightarrow> string) \<Rightarrow> (string \<times> string) list \<Rightarrow> string list list" where
  "ultimate_blocks md5 file_map =
     (case manual_entries md5 90000 (map fst file_map) of
        (refs, builds, sources) \<Rightarrow>
          [builds, refs, sources, subgroup_definitions (subgroups md5 file_map)])"

lemma group_pass_none:
  "list_all (\<lambda>(group_path, group_id). \<not> (py_in (group_id @ '' /* '') line \<and> py_in ''= {'' line)) groups
     \<Longrightarrow> group_pass md5 file_map line groups st = Inr st"
proof (induction groups)
  case Nil
  then show ?case by simp
next
  case (Cons g groups)
  obtain gp gid where g: "g = (gp, gid)" by (cases g)
  obtain out cur where st: "st = (out, cur)" by (cases st)
  from Cons.prems g have "\<not> group_header gid line cur" by (auto simp: group_header_def)
  with Cons g st show ?case by simp
qed

lemma ultimate_step_blocks:
  assumes "list_all (\<lambda>(group_path, group_id). \<not> (py_in (group_id @ '' /* '') line \<and> py_in ''= {'' line))
             (all_groups md5 file_map)"
    and "ultimate_step md5 file_map line rest = Inr (out, rest')"
  shows "\<exists>pre ins post. (ins \<in> set (ultimate_blocks md5 file_map) \<or> ins = [])
           \<and> out = pre @ ins @ post \<and> line # rest = pre @ post @ rest'"
proof -
  obtain refs builds sources where
    e: "manual_entries md5 90000 (map fst file_map) = (refs, builds, sources)"
    by (cases "manual_entries md5 90000 (map fst file_map)")
  let ?defs = "subgroup_definitions (subgroups md5 file_map)"
  have ins: "builds \<in> set (ultimate_blocks md5 file_map)"
    "refs \<in> set (ultimate_blocks md5 file_map)"
    "sources \<in> set (ultimate_blocks md5 file_map)"
    "?defs \<in> set (ultimate_blocks md5 file_map)"
    by (simp_all add: ultimate_blocks_def e)
  have gp: "group_pass md5 file_map line (all_groups md5 file_map) ([], line # rest) = Inr ([], line # rest)"
    using assms(1) by (rule group_pass_none)
  have cases: "(out = builds @ [line] \<and> rest' = rest) \<or> (out = refs @ [line] \<and> rest' = rest)
      \<or> sources_block sources (line # rest) = Inr (out, rest')
      \<or> (out = ?defs @ [line] \<and> rest' = rest) \<or> (out = [line] \<and> rest' = rest)"
  proof (cases "py_in end_buildfile line")
    case True
    with assms(2) show ?thesis by (simp add: ultimate_step_def e)
  next
    case nb: False
    show ?thesis
    proof (cases "py_in end_fileref line")
      case True
      with nb assms(2) show ?thesis by (simp add: ultimate_step_def e)
    next
      case nr: False
      show ?thesis
      proof (cases "py_in sources_header line
                  \<and> (case rest of [] \<Rightarrow> False | nxt # _ \<Rightarrow> py_in isa_sources nxt)")
        case True
        with nb nr assms(2) show ?thesis by (simp add: ultimate_step_def e)
      next
        case False
        with nb nr assms(2) gp show ?thesis
          by (cases "py_in end_group line") (simp_all add: ultimate_step_def e)
      qed
    qed
  qed
  then consider (b) "out = builds @ [line]" "rest' = rest"
    | (r) "out = refs @ [line]" "rest' = rest"
    | (s) "sources_block sources (line # rest) = Inr (out, rest')"
    | (d) "out = ?defs @ [line]" "rest' = rest"
    | (c) "out = [line]" "rest' = rest"
    by blast
  then show ?thesis
  proof cases
    case b
    show ?thesis
      by (rule exI[of _ "[]"], rule exI[of _ builds], rule exI[of _ "[line]"]) (simp add: b ins)
  next
    case r
    show ?thesis
      by (rule exI[of _ "[]"], rule exI[of _ refs], rule exI[of _ "[line]"]) (simp add: r ins)
  next
    case s
    from sources_block_shape[OF s] obtain pre post where
      "out = pre @ sources @ post" "line # rest = pre @ post @ rest'" by blast
    then show ?thesis
      by (intro exI[of _ pre] exI[of _ sources] exI[of _ post]) (simp add: ins)
  next
    case d
    show ?thesis
      by (rule exI[of _ "[]"], rule exI[of _ ?defs], rule exI[of _ "[line]"]) (simp add: d ins)
  next
    case c
    show ?thesis
      by (rule exI[of _ "[]"], rule exI[of _ "[]"], rule exI[of _ "[line]"]) (simp add: c)
  qed
qed

lemma ultimate_step_shape:
  assumes "list_all (\<lambda>(group_path, group_id). \<not> (py_in (group_id @ '' /* '') line \<and> py_in ''= {'' line))
             (all_groups md5 file_map)"
    and "ultimate_step md5 file_map line rest = Inr (out, rest')"
  shows "\<exists>pre ins post. set ins \<subseteq> ultimate_inserted md5 file_map \<and> out = pre @ ins @ post
           \<and> line # rest = pre @ post @ rest'"
proof -
  from ultimate_step_blocks[OF assms] obtain pre ins post where
    ins: "ins \<in> set (ultimate_blocks md5 file_map) \<or> ins = []" and out: "out = pre @ ins @ post"
    and ls: "line # rest = pre @ post @ rest'" by blast
  from ins have "set ins \<subseteq> ultimate_inserted md5 file_map"
    by (auto simp: ultimate_blocks_def ultimate_inserted_def split: prod.splits)
  with out ls show ?thesis by blast
qed

lemma ultimate_loop_Cons_Inr:
  assumes "ultimate_loop md5 file_map (line # rest) = Inr res"
  shows "\<exists>out rest' more. ultimate_step md5 file_map line rest = Inr (out, rest')
           \<and> ultimate_loop md5 file_map rest' = Inr more \<and> res = out @ more"
  using assms by (auto split: sum.splits dest!: emit_Inr)

lemma ultimate_loop_frame:
  "rewrites_no_group md5 file_map ls \<Longrightarrow> ultimate_loop md5 file_map ls = Inr res \<Longrightarrow>
     subseq ls res \<and> set res \<subseteq> set ls \<union> ultimate_inserted md5 file_map"
proof (induction ls arbitrary: res rule: length_induct)
  case (1 ls)
  show ?case
  proof (cases ls)
    case Nil
    with 1(3) show ?thesis by simp
  next
    case (Cons line rest)
    from ultimate_loop_Cons_Inr[OF 1(3)[unfolded Cons]] obtain out rest' more where
      st: "ultimate_step md5 file_map line rest = Inr (out, rest')"
      and lp: "ultimate_loop md5 file_map rest' = Inr more" and res: "res = out @ more"
      by blast
    from 1(2) Cons have hd: "list_all (\<lambda>(group_path, group_id).
         \<not> (py_in (group_id @ '' /* '') line \<and> py_in ''= {'' line)) (all_groups md5 file_map)"
      by (simp add: rewrites_no_group_def)
    from ultimate_step_shape[OF hd st] obtain pre ins post where
      ins: "set ins \<subseteq> ultimate_inserted md5 file_map" and out: "out = pre @ ins @ post"
      and ls: "line # rest = pre @ post @ rest'" by blast
    from ls have sub: "set rest' \<subseteq> set ls" unfolding Cons by (metis set_append Un_upper2 subset_trans)
    with 1(2) have rn: "rewrites_no_group md5 file_map rest'"
      by (auto simp: rewrites_no_group_def list_all_iff)
    from ultimate_step_shorter[OF st] Cons have "length rest' < length ls" by simp
    with 1(1) lp rn have ih: "subseq rest' more"
      "set more \<subseteq> set rest' \<union> ultimate_inserted md5 file_map" by blast+
    have "subseq (pre @ post) (pre @ ins @ post)"
      by (intro list_emb_append_mono subseq_order.order_refl list_emb_append2)
    then have "subseq ((pre @ post) @ rest') ((pre @ ins @ post) @ more)"
      using ih(1) by (rule list_emb_append_mono)
    then have a: "subseq ls res" using ls out res Cons by simp
    have "set pre \<union> set post \<union> set rest' = set ls"
      using ls Cons by (metis set_append sup_assoc)
    then have b: "set res \<subseteq> set ls \<union> ultimate_inserted md5 file_map"
      using ih(2) out res ins by auto
    from a b show ?thesis ..
  qed
qed

lemma subseq_keeps_line:
  assumes "subseq ls res" "l \<in> set ls"
  shows "l \<in> set res"
proof -
  from list_emb_set[OF assms] obtain y where "y \<in> set res" "l = y" by blast
  then show ?thesis by simp
qed

lemma sentinel_survives:
  assumes "pat \<noteq> []" "\<forall>c \<in> set pat. \<not> is_break c" "py_in pat doc"
    and "subseq (splitlines doc) out"
  shows "py_in pat (join_nl out @ [LF])"
proof -
  from py_in_splitlines[OF assms(1-3)] obtain l where l: "l \<in> set (splitlines doc)" "py_in pat l"
    by blast
  from subseq_keeps_line[OF assms(4) l(1)] l(2) have "py_in pat (join_nl out)"
    by (rule py_in_join_char)
  then show ?thesis by (rule py_in_append_right)
qed

lemma sentinels_plain:
  "end_buildfile \<noteq> []" "\<forall>c \<in> set end_buildfile. \<not> is_break c"
  "end_fileref \<noteq> []" "\<forall>c \<in> set end_fileref. \<not> is_break c"
  "end_group \<noteq> []" "\<forall>c \<in> set end_group. \<not> is_break c"
  by (simp_all add: sentinel_defs is_break_def)


section \<open>\<^verbatim>\<open>fix_project.py\<close>\<close>

text \<open>
  Lines 28-52: the files are the names of the scan that are not in \<^verbatim>\<open>current_files\<close>,
  sorted; every one is rendered as a Swift source, with the identifiers
  \<^verbatim>\<open>generate_uuid(seed)\<close> and \<^verbatim>\<open>generate_uuid(seed + 1)\<close>, the same digest prefix as
  \<^verbatim>\<open>gen_id\<close>.
\<close>

fun project_entries ::
  "(string \<Rightarrow> string) \<Rightarrow> nat \<Rightarrow> string list \<Rightarrow> string list \<times> string list \<times> string list" where
  "project_entries md5 seed [] = ([], [], [])"
| "project_entries md5 seed (fname # fs) =
     (let fid = gen_id md5 seed;
          bid = gen_id md5 (seed + 1)
      in case project_entries md5 (seed + 2) fs of
           (refs, builds, sources) \<Rightarrow>
             (ref_line fid fname ''sourcecode.swift'' # refs,
              build_line bid fid fname # builds,
              source_line bid fname # sources))"

text \<open>
  Lines 55-71: every line is copied, and the new lines follow the lines with the indices
  16, 29 and 293.
\<close>

fun project_assemble ::
  "nat \<Rightarrow> string list \<Rightarrow> string list \<Rightarrow> string list \<Rightarrow> string list \<Rightarrow> string list" where
  "project_assemble i builds refs sources [] = []"
| "project_assemble i builds refs sources (line # rest) =
     line # (if i = 16 then builds else []) @ (if i = 29 then refs else [])
       @ (if i = 293 then sources else [])
       @ project_assemble (Suc i) builds refs sources rest"

text \<open>Lines 28-75: the text written for the text read.\<close>

definition fix_project_patch :: "(string \<Rightarrow> string) \<Rightarrow> string list \<Rightarrow> string \<Rightarrow> string" where
  "fix_project_patch md5 found original =
     (case project_entries md5 50000 (sort (filter (\<lambda>f. f \<notin> set curr_files) found)) of
        (refs, builds, sources) \<Rightarrow>
          join_nl (project_assemble 0 builds refs sources (split_nl original)))"

text \<open>
  The whole script: read (lines 19-20), back up under a dated name (lines 23-25), write
  (lines 74-75). There is no validation.
\<close>

definition fix_project_main :: "(string \<Rightarrow> string) \<Rightarrow> string list \<Rightarrow> disk \<Rightarrow> disk \<times> outcome" where
  "fix_project_main md5 found d =
     (let original = read_text (pbxproj d);
          d1 = d\<lparr>dated_backup := Some original\<rparr>
      in (write_pbxproj (fix_project_patch md5 found original) d1, Written))"

text \<open>The blocks of generated lines of \<^verbatim>\<open>fix_project.py\<close>.\<close>

definition project_blocks :: "(string \<Rightarrow> string) \<Rightarrow> string list \<Rightarrow> string list list" where
  "project_blocks md5 found =
     (case project_entries md5 50000 (sort (filter (\<lambda>f. f \<notin> set curr_files) found)) of
        (refs, builds, sources) \<Rightarrow> [builds, refs, sources])"

lemma project_assemble_no_entries: "project_assemble i [] [] [] ls = ls"
  by (induction ls arbitrary: i) simp_all

section \<open>What a rewrite leaves of the input (C3)\<close>

text \<open>
  \<open>inserted G ls out\<close>: the lines \<open>out\<close> are the lines \<open>ls\<close>, every one once and in their
  order, with whole blocks of \<open>G\<close> put between them (and before the first and after the
  last). The second argument of \<open>inserted_aux\<close> is what is left to read of the block that
  is being read.
\<close>

fun inserted_aux :: "'a list list \<Rightarrow> 'a list \<Rightarrow> 'a list \<Rightarrow> 'a list \<Rightarrow> bool" where
  "inserted_aux G (p # ps) ls (x # xs) = (p = x \<and> inserted_aux G ps ls xs)"
| "inserted_aux G (p # ps) ls [] = False"
| "inserted_aux G [] ls [] = (ls = [])"
| "inserted_aux G [] ls (x # xs) =
     ((case ls of [] \<Rightarrow> False | l # ls' \<Rightarrow> l = x \<and> inserted_aux G [] ls' xs)
      \<or> list_ex (\<lambda>b. case b of [] \<Rightarrow> False | p # ps \<Rightarrow> p = x \<and> inserted_aux G ps ls xs) G)"

definition inserted :: "'a list list \<Rightarrow> 'a list \<Rightarrow> 'a list \<Rightarrow> bool" where
  "inserted G ls out = inserted_aux G [] ls out"

lemma inserted_aux_block: "inserted_aux G [] ls out \<Longrightarrow> inserted_aux G ps ls (ps @ out)"
  by (induction ps) simp_all

lemma inserted_refl: "inserted G ls ls"
  unfolding inserted_def by (induction ls) simp_all

lemma inserted_keep: "inserted G ls out \<Longrightarrow> inserted G (pre @ ls) (pre @ out)"
  unfolding inserted_def by (induction pre) simp_all

lemma inserted_block:
  assumes "b \<in> set G \<or> b = []" and "inserted G ls out"
  shows "inserted G ls (b @ out)"
proof (cases b)
  case Nil
  with assms(2) show ?thesis by simp
next
  case (Cons p ps)
  with assms(1) have "b \<in> set G" by simp
  moreover from assms(2) have "inserted_aux G ps ls (ps @ out)"
    unfolding inserted_def by (rule inserted_aux_block)
  ultimately have "list_ex (\<lambda>b. case b of [] \<Rightarrow> False
      | p' # ps' \<Rightarrow> p' = p \<and> inserted_aux G ps' ls (ps @ out)) G"
    unfolding list_ex_iff using Cons by (intro bexI[of _ b]) simp_all
  then show ?thesis by (simp add: inserted_def Cons)
qed

lemma inserted_step:
  assumes "ins \<in> set G \<or> ins = []" and "inserted G rest' later"
  shows "inserted G (pre @ post @ rest') ((pre @ ins @ post) @ later)"
proof -
  from assms(2) have "inserted G (post @ rest') (post @ later)" by (rule inserted_keep)
  with assms(1) have "inserted G (post @ rest') (ins @ post @ later)" by (rule inserted_block)
  then have "inserted G (pre @ post @ rest') (pre @ ins @ post @ later)" by (rule inserted_keep)
  then show ?thesis by simp
qed

lemma manual_loop_inserted:
  "manual_loop builds refs sources ls = Inr res \<Longrightarrow> inserted [builds, refs, sources] ls res"
proof (induction ls arbitrary: res rule: length_induct)
  case (1 ls)
  show ?case
  proof (cases ls)
    case Nil
    with 1(2) show ?thesis by (simp add: inserted_def)
  next
    case (Cons line rest)
    from manual_loop_Cons_Inr[OF 1(2)[unfolded Cons]] obtain out rest' more where
      st: "manual_step builds refs sources line rest = Inr (out, rest')"
      and lp: "manual_loop builds refs sources rest' = Inr more" and res: "res = out @ more"
      by blast
    from manual_step_shorter[OF st] Cons have "length rest' < length ls" by simp
    with 1(1) lp have ih: "inserted [builds, refs, sources] rest' more" by blast
    from manual_step_shape[OF st] obtain pre ins post where
      ins: "ins \<in> {[], builds, refs, sources}" and out: "out = pre @ ins @ post"
      and ls: "line # rest = pre @ post @ rest'" by blast
    from ins have "ins \<in> set [builds, refs, sources] \<or> ins = []" by auto
    from inserted_step[OF this ih, of pre post] show ?thesis
      unfolding Cons ls res out .
  qed
qed

lemma ultimate_loop_inserted:
  "rewrites_no_group md5 file_map ls \<Longrightarrow> ultimate_loop md5 file_map ls = Inr res \<Longrightarrow>
     inserted (ultimate_blocks md5 file_map) ls res"
proof (induction ls arbitrary: res rule: length_induct)
  case (1 ls)
  show ?case
  proof (cases ls)
    case Nil
    with 1(3) show ?thesis by (simp add: inserted_def)
  next
    case (Cons line rest)
    from ultimate_loop_Cons_Inr[OF 1(3)[unfolded Cons]] obtain out rest' more where
      st: "ultimate_step md5 file_map line rest = Inr (out, rest')"
      and lp: "ultimate_loop md5 file_map rest' = Inr more" and res: "res = out @ more"
      by blast
    from 1(2) Cons have hd: "list_all (\<lambda>(group_path, group_id).
         \<not> (py_in (group_id @ '' /* '') line \<and> py_in ''= {'' line)) (all_groups md5 file_map)"
      by (simp add: rewrites_no_group_def)
    from ultimate_step_blocks[OF hd st] obtain pre ins post where
      ins: "ins \<in> set (ultimate_blocks md5 file_map) \<or> ins = []" and out: "out = pre @ ins @ post"
      and ls: "line # rest = pre @ post @ rest'" by blast
    from ls have sub: "set rest' \<subseteq> set ls" unfolding Cons by (metis set_append Un_upper2 subset_trans)
    with 1(2) have rn: "rewrites_no_group md5 file_map rest'"
      by (auto simp: rewrites_no_group_def list_all_iff)
    from ultimate_step_shorter[OF st] Cons have "length rest' < length ls" by simp
    with 1(1) lp rn have ih: "inserted (ultimate_blocks md5 file_map) rest' more" by blast
    from inserted_step[OF ins ih, of pre post] show ?thesis
      unfolding Cons ls res out .
  qed
qed

lemma project_assemble_inserted:
  "inserted [builds, refs, sources] ls (project_assemble i builds refs sources ls)"
proof (induction ls arbitrary: i)
  case Nil
  then show ?case by (simp add: inserted_def)
next
  case (Cons line rest)
  let ?G = "[builds, refs, sources]"
  let ?rec = "project_assemble (Suc i) builds refs sources rest"
  have s: "(if i = 293 then sources else []) \<in> set ?G \<or> (if i = 293 then sources else []) = []"
    and r: "(if i = 29 then refs else []) \<in> set ?G \<or> (if i = 29 then refs else []) = []"
    and b: "(if i = 16 then builds else []) \<in> set ?G \<or> (if i = 16 then builds else []) = []"
    by simp_all
  from Cons[of "Suc i"] have "inserted ?G rest ?rec" .
  with s have "inserted ?G rest ((if i = 293 then sources else []) @ ?rec)"
    by (rule inserted_block)
  with r have "inserted ?G rest ((if i = 29 then refs else [])
      @ (if i = 293 then sources else []) @ ?rec)"
    by (rule inserted_block)
  with b have "inserted ?G rest ((if i = 16 then builds else []) @ (if i = 29 then refs else [])
      @ (if i = 293 then sources else []) @ ?rec)"
    by (rule inserted_block)
  then have "inserted ?G ([line] @ rest) ([line] @ (if i = 16 then builds else [])
      @ (if i = 29 then refs else []) @ (if i = 293 then sources else []) @ ?rec)"
    by (rule inserted_keep)
  then show ?case by simp
qed

text \<open>
  C3, as the claim states it, at the text \<^verbatim>\<open>x\<close> with no trailing newline, when the scan
  finds no Swift file: \<^verbatim>\<open>ULTIMATE_FIX.py\<close> writes \<^verbatim>\<open>x\<close> and a newline (lines 21 and 232), so
  the trailing bytes of the document are not what they were.
\<close>

theorem C3_ultimate_changes_trailing_bytes:
  "\<forall>md5. ultimate_patch md5 (ultimate_file_map []) ''x'' = Inr [CHR ''x'', LF]
       \<and> [CHR ''x'', LF] \<noteq> ''x''"
  by (simp add: ultimate_patch_def ultimate_file_map_def ultimate_eval char_defs split: prod.splits)

text \<open>
  C3, amended: the lines of the input are the lines \<^verbatim>\<open>splitlines()\<close> gives
  (\<^verbatim>\<open>manual_fix.py\<close>, \<^verbatim>\<open>ULTIMATE_FIX.py\<close>) or the pieces between newlines
  (\<^verbatim>\<open>fix_project.py\<close>). When the rewrite loop of \<^verbatim>\<open>manual_fix.py\<close> completes, and when the
  loop of \<^verbatim>\<open>ULTIMATE_FIX.py\<close> completes on a document in which it rewrites no group record,
  the output lines are the input lines, every one once and in the input's order, with whole
  blocks of generated lines put between them; the text written is the output lines joined
  by newlines and ended by one newline. The output lines of \<^verbatim>\<open>fix_project.py\<close> are the
  pieces, every one once and in order, with whole blocks of generated lines put between
  them or after the last, and the text written is these lines joined by newlines. A text
  that is a sequence of lines without other line breaks, each ended by a newline, is split
  by \<^verbatim>\<open>splitlines()\<close> into these lines, so that for such a text the text written by
  \<^verbatim>\<open>manual_fix.py\<close> and \<^verbatim>\<open>ULTIMATE_FIX.py\<close> differs from it by the inserted lines only.
\<close>

theorem C3_rewrite_inserts_whole_blocks:
  "(manual_fix_patch md5 new_files original = Inr result \<longrightarrow>
      (\<exists>outp. result = join_nl outp @ [LF]
         \<and> inserted (manual_blocks md5 new_files) (splitlines original) outp))
   \<and> (rewrites_no_group md5 file_map (splitlines doc)
        \<and> ultimate_patch md5 file_map doc = Inr result_u \<longrightarrow>
      (\<exists>outp. result_u = join_nl outp @ [LF]
         \<and> inserted (ultimate_blocks md5 file_map) (splitlines doc) outp))
   \<and> (\<exists>outp. fix_project_patch md5 found t = join_nl outp
         \<and> inserted (project_blocks md5 found) (split_nl t) outp)
   \<and> (ls \<noteq> [] \<and> list_all (\<lambda>l. list_all (\<lambda>c. \<not> is_break c) l) ls \<longrightarrow>
        splitlines (join_nl ls @ [LF]) = ls)"
proof -
  have manual: "\<exists>outp. result = join_nl outp @ [LF]
         \<and> inserted (manual_blocks md5 new_files) (splitlines original) outp"
    if p: "manual_fix_patch md5 new_files original = Inr result"
  proof -
    obtain refs builds sources where
      e: "manual_entries md5 60000 new_files = (refs, builds, sources)"
      by (cases "manual_entries md5 60000 new_files")
    with p obtain out where lp: "manual_loop builds refs sources (splitlines original) = Inr out"
      and r: "result = join_nl out @ [LF]"
      by (auto simp: manual_fix_patch_def split: sum.splits)
    from manual_loop_inserted[OF lp] r e show ?thesis by (auto simp: manual_blocks_def)
  qed
  have ultimate: "\<exists>outp. result_u = join_nl outp @ [LF]
         \<and> inserted (ultimate_blocks md5 file_map) (splitlines doc) outp"
    if rn: "rewrites_no_group md5 file_map (splitlines doc)"
      and p: "ultimate_patch md5 file_map doc = Inr result_u"
  proof -
    from p obtain out where lp: "ultimate_loop md5 file_map (splitlines doc) = Inr out"
      and r: "result_u = join_nl out @ [LF]"
      by (auto simp: ultimate_patch_def split: sum.splits)
    from ultimate_loop_inserted[OF rn lp] r show ?thesis by auto
  qed
  have project: "\<exists>outp. fix_project_patch md5 found t = join_nl outp
         \<and> inserted (project_blocks md5 found) (split_nl t) outp"
  proof -
    obtain refs builds sources where
      e: "project_entries md5 50000 (sort (filter (\<lambda>f. f \<notin> set curr_files) found))
            = (refs, builds, sources)"
      by (cases "project_entries md5 50000 (sort (filter (\<lambda>f. f \<notin> set curr_files) found))")
    from project_assemble_inserted[of builds refs sources "split_nl t" 0] e
    show ?thesis by (auto simp: fix_project_patch_def project_blocks_def)
  qed
  have lines: "splitlines (join_nl ls @ [LF]) = ls"
    if "ls \<noteq> []" "list_all (\<lambda>l. list_all (\<lambda>c. \<not> is_break c) l) ls"
    using that by (intro splitlines_join_nl) (simp_all add: list_all_iff)
  from manual ultimate project lines show ?thesis by blast
qed

text \<open>
  \<^verbatim>\<open>manual_fix.py\<close> and \<^verbatim>\<open>ULTIMATE_FIX.py\<close> on a document of two lines, the second the
  sentinel of the file references, when the scan finds no Swift file: the reference of the
  data model is put before the sentinel.
\<close>

definition one_anchor :: "string list" where
  "one_anchor = [''a'', ''/* End PBXFileReference section */'']"

theorem C3_rewrite_inserts_whole_blocks_witness:
  "\<forall>md5. splitlines (join_nl one_anchor @ [LF]) = one_anchor
       \<and> manual_fix_patch md5 (manual_new_files []) (join_nl one_anchor @ [LF])
         = Inr (join_nl [''a'', ref_line (gen_id md5 60000) ''ZairyuMateDataModel.xcdatamodeld''
                               ''wrapper.xcdatamodeld'',
                         ''/* End PBXFileReference section */''] @ [LF])
       \<and> (\<exists>outp. join_nl [''a'', ref_line (gen_id md5 60000) ''ZairyuMateDataModel.xcdatamodeld''
                               ''wrapper.xcdatamodeld'',
                         ''/* End PBXFileReference section */''] @ [LF] = join_nl outp @ [LF]
              \<and> inserted (manual_blocks md5 (manual_new_files [])) one_anchor outp)
       \<and> ultimate_patch md5 (ultimate_file_map []) (join_nl one_anchor @ [LF])
         = Inr (join_nl [''a'', ref_line (gen_id md5 90000) ''ZairyuMateDataModel.xcdatamodeld''
                               ''wrapper.xcdatamodeld'',
                         ''/* End PBXFileReference section */''] @ [LF])
       \<and> (\<exists>outp. join_nl [''a'', ref_line (gen_id md5 90000) ''ZairyuMateDataModel.xcdatamodeld''
                               ''wrapper.xcdatamodeld'',
                         ''/* End PBXFileReference section */''] @ [LF] = join_nl outp @ [LF]
              \<and> inserted (ultimate_blocks md5 (ultimate_file_map [])) one_anchor outp)"
proof (intro allI)
  fix md5 :: "string \<Rightarrow> string"
  let ?t = "join_nl one_anchor @ [LF]"
  let ?m = "join_nl [''a'', ref_line (gen_id md5 60000) ''ZairyuMateDataModel.xcdatamodeld''
                               ''wrapper.xcdatamodeld'',
                         ''/* End PBXFileReference section */''] @ [LF]"
  let ?u = "join_nl [''a'', ref_line (gen_id md5 90000) ''ZairyuMateDataModel.xcdatamodeld''
                               ''wrapper.xcdatamodeld'',
                         ''/* End PBXFileReference section */''] @ [LF]"
  note inst = C3_rewrite_inserts_whole_blocks[of md5 "manual_new_files []" ?t ?m
      "ultimate_file_map []" ?t ?u "[]" "[]" one_anchor]
  have plain: "one_anchor \<noteq> [] \<and> list_all (\<lambda>l. list_all (\<lambda>c. \<not> is_break c) l) one_anchor"
    by (simp add: one_anchor_def is_break_def)
  with inst have sp: "splitlines ?t = one_anchor" by blast
  have m: "manual_fix_patch md5 (manual_new_files []) ?t = Inr ?m"
    by (simp add: manual_fix_patch_def sp manual_new_files_def)
       (simp add: one_anchor_def manual_step_def emit_def sentinel_defs file_type_def Let_def)
  have u: "ultimate_patch md5 (ultimate_file_map []) ?t = Inr ?u"
    by (simp add: ultimate_patch_def sp ultimate_file_map_def)
       (simp add: one_anchor_def ultimate_eval file_type_def)
  have rn: "rewrites_no_group md5 (ultimate_file_map []) (splitlines ?t)"
    unfolding sp
    by (simp add: rewrites_no_group_def one_anchor_def ultimate_file_map_def ultimate_eval)
  from inst m have a: "\<exists>outp. ?m = join_nl outp @ [LF]
      \<and> inserted (manual_blocks md5 (manual_new_files [])) (splitlines ?t) outp"
    by blast
  from inst u rn have b: "\<exists>outp. ?u = join_nl outp @ [LF]
      \<and> inserted (ultimate_blocks md5 (ultimate_file_map [])) (splitlines ?t) outp"
    by blast
  from sp m u a[unfolded sp] b[unfolded sp]
  show "splitlines ?t = one_anchor
       \<and> manual_fix_patch md5 (manual_new_files []) ?t = Inr ?m
       \<and> (\<exists>outp. ?m = join_nl outp @ [LF]
              \<and> inserted (manual_blocks md5 (manual_new_files [])) one_anchor outp)
       \<and> ultimate_patch md5 (ultimate_file_map []) ?t = Inr ?u
       \<and> (\<exists>outp. ?u = join_nl outp @ [LF]
              \<and> inserted (ultimate_blocks md5 (ultimate_file_map [])) one_anchor outp)"
    by blast
qed

section \<open>\<^verbatim>\<open>add-files-to-xcode.py\<close>\<close>

text \<open>
  Lines 11-15: \<^verbatim>\<open>generate_uuid()\<close> joins 24 characters that \<^verbatim>\<open>random.choices\<close> draws from
  \<^verbatim>\<open>string.hexdigits.upper()[:16]\<close>. The random source is the parameter \<open>choice\<close>: the index
  drawn at each position. The call number \<open>k\<close> of a run uses the positions from \<open>24 k\<close> on.
\<close>

definition generate_uuid :: "(nat \<Rightarrow> nat) \<Rightarrow> nat \<Rightarrow> string" where
  "generate_uuid choice k =
     map (\<lambda>j. ''0123456789ABCDEF'' ! (choice (24 * k + j) mod 16)) [0..<24]"

text \<open>Lines 27-35: the files the script takes to be in the project.\<close>

definition existing_files :: "string list" where
  "existing_files = [''ZairyuMateApp.swift'', ''Constants.swift'', ''Extensions.swift'',
                     ''ColorTheme.swift'', ''Typography.swift'', ''Spacing.swift'',
                     ''Assets.xcassets'']"

record file_info =
  fi_name :: string
  fi_path :: string
  fi_parent :: string
  fi_type :: string

text \<open>
  Lines 38-71: the files to add, from the sorted scan \<open>found\<close> (the name of each Swift file
  and the directory that holds it, empty for the source root) and from whether the data
  model exists.
\<close>

definition files_to_add :: "(string \<times> string) list \<Rightarrow> bool \<Rightarrow> file_info list" where
  "files_to_add found coredata_exists =
     map (\<lambda>(filename, parent_path).
            \<lparr>fi_name = filename, fi_path = filename, fi_parent = parent_path,
             fi_type = ''sourcecode.swift''\<rparr>)
       (filter (\<lambda>(filename, parent_path). filename \<notin> set existing_files) found)
     @ (if coredata_exists
        then [\<lparr>fi_name = ''ZairyuMateDataModel.xcdatamodeld'',
               fi_path = ''ZairyuMateDataModel.xcdatamodeld'',
               fi_parent = ''Core/Storage'', fi_type = ''wrapper.xcdatamodeld''\<rparr>]
        else [])"

text \<open>
  Lines 78-103, from the call number \<open>k\<close> on: every file draws two identifiers and gets a
  file reference; a build file is made only for a Swift source (line 92).
\<close>

fun add_files_refs :: "(nat \<Rightarrow> nat) \<Rightarrow> nat \<Rightarrow> file_info list \<Rightarrow> string list" where
  "add_files_refs choice k [] = []"
| "add_files_refs choice k (f # fs) =
     ([TAB, TAB] @ generate_uuid choice k @ '' /* '' @ fi_name f
        @ '' */ = {isa = PBXFileReference; lastKnownFileType = '' @ fi_type f
        @ ''; path = '' @ fi_path f @ ''; sourceTree = '' @ [DQ] @ ''<group>'' @ [DQ] @ ''; };'')
     # add_files_refs choice (k + 2) fs"

fun add_files_builds :: "(nat \<Rightarrow> nat) \<Rightarrow> nat \<Rightarrow> file_info list \<Rightarrow> string list" where
  "add_files_builds choice k [] = []"
| "add_files_builds choice k (f # fs) =
     (if fi_type f = ''sourcecode.swift''
      then [build_line (generate_uuid choice (k + 1)) (generate_uuid choice k) (fi_name f)]
      else [])
     @ add_files_builds choice (k + 2) fs"

text \<open>
  \<^verbatim>\<open>group_children[key]\<close>: the build identifiers of the Swift sources under the key
  \<^verbatim>\<open>SOURCES\<close> (line 98), the file identifiers under the parent path of a file that has one
  (lines 101-103).
\<close>

fun group_children :: "(nat \<Rightarrow> nat) \<Rightarrow> nat \<Rightarrow> file_info list \<Rightarrow> string \<Rightarrow> (string \<times> string) list" where
  "group_children choice k [] key = []"
| "group_children choice k (f # fs) key =
     (if fi_type f = ''sourcecode.swift'' \<and> key = ''SOURCES''
      then [(generate_uuid choice (k + 1), fi_name f)] else [])
     @ (if fi_parent f \<noteq> [] \<and> fi_parent f = key
        then [(generate_uuid choice k, fi_name f)] else [])
     @ group_children choice (k + 2) fs key"

text \<open>Lines 149-155: the lines added to the Sources phase.\<close>

definition add_files_sources :: "(nat \<Rightarrow> nat) \<Rightarrow> file_info list \<Rightarrow> string list" where
  "add_files_sources choice files =
     map (\<lambda>(uuid, name). source_line uuid name) (group_children choice 0 files ''SOURCES'')"

text \<open>
  Lines 158-194, the four tests on a group line. A test that finds its group on the line
  appends the line; if the next line opens the list of children, it appends that line and
  the new children and ends the pass (\<^verbatim>\<open>i += 1\<close> has no effect on the \<^verbatim>\<open>for\<close> loop);
  otherwise the pass goes on to the next test, and at the end appends the line (line 197).
\<close>

definition group_tests :: "(string \<times> string) list" where
  "group_tests = [(''A10000033 /* Models */'', ''Core/Models''),
                  (''A10000034 /* Services */'', ''Core/Services''),
                  (''A10000035 /* Storage */'', ''Core/Storage''),
                  (''A10000036 /* Utilities */'', ''Core/Utilities'')]"

fun group_checks ::
  "(nat \<Rightarrow> nat) \<Rightarrow> file_info list \<Rightarrow> (string \<times> string) list \<Rightarrow> string \<Rightarrow> string list \<Rightarrow> string list" where
  "group_checks choice files [] line rest = [line]"
| "group_checks choice files ((pat, key) # tests) line rest =
     (if py_in pat line \<and> py_in ''isa = PBXGroup'' line then
        line # (case rest of
                  nxt # _ \<Rightarrow>
                    if py_in ''children = ('' nxt
                    then nxt # map (\<lambda>(uuid, name). child_line uuid name)
                                 (group_children choice 0 files key)
                    else group_checks choice files tests line rest
                | [] \<Rightarrow> group_checks choice files tests line rest)
      else group_checks choice files tests line rest)"

text \<open>
  Lines 119-197, the loop over the lines, with the flag \<^verbatim>\<open>in_sources_phase\<close>. The new
  phase-membership lines follow the line with \<^verbatim>\<open>files = (\<close> (lines 150-155).
\<close>

fun add_files_loop :: "(nat \<Rightarrow> nat) \<Rightarrow> file_info list \<Rightarrow> bool \<Rightarrow> string list \<Rightarrow> string list" where
  "add_files_loop choice files in_sources [] = []"
| "add_files_loop choice files in_sources (line # rest) =
     (if py_in ''/* Begin PBXBuildFile section */'' line then
        line # add_files_builds choice 0 files @ add_files_loop choice files in_sources rest
      else if py_in ''/* Begin PBXFileReference section */'' line then
        line # add_files_refs choice 0 files @ add_files_loop choice files in_sources rest
      else
        (let in_sources' =
               (if py_in ''/* End PBXSourcesBuildPhase section */'' line then False
                else if py_in ''/* Begin PBXSourcesBuildPhase section */'' line then True
                else in_sources)
         in if in_sources' \<and> py_in ''files = ('' line then
              line # add_files_sources choice files @ add_files_loop choice files in_sources' rest
            else group_checks choice files group_tests line rest
                 @ add_files_loop choice files in_sources' rest))"

text \<open>Lines 109-206: the text written for the text read.\<close>

definition add_files_patch :: "(nat \<Rightarrow> nat) \<Rightarrow> file_info list \<Rightarrow> string \<Rightarrow> string" where
  "add_files_patch choice files original_content =
     join_nl (add_files_loop choice files False (split_nl original_content))"

section \<open>Order of the build phase (C7)\<close>

text \<open>The lines of a Sources phase with one member, and one Swift file to add.\<close>

definition phase_with_member :: "string list" where
  "phase_with_member =
     [''/* Begin PBXSourcesBuildPhase section */'',
      ''files = ('',
      ''OLD /* Old.swift in Sources */,'',
      '');'',
      ''/* End PBXSourcesBuildPhase section */'']"

definition new_swift :: "file_info list" where
  "new_swift = [\<lparr>fi_name = ''New.swift'', fi_path = ''New.swift'', fi_parent = [],
                 fi_type = ''sourcecode.swift''\<rparr>]"

text \<open>
  C7 at that phase, in \<^verbatim>\<open>add-files-to-xcode.py\<close>: the new phase-membership line is put
  right after \<^verbatim>\<open>files = (\<close>, before the member that was there, although the comment on
  line 149 says the files are added before the closing \<^verbatim>\<open>);\<close>.
\<close>

theorem C7_add_files_puts_new_entries_first:
  "\<forall>choice. add_files_loop choice new_swift False phase_with_member =
     [''/* Begin PBXSourcesBuildPhase section */'',
      ''files = ('',
      source_line (generate_uuid choice 1) ''New.swift'',
      ''OLD /* Old.swift in Sources */,'',
      '');'',
      ''/* End PBXSourcesBuildPhase section */'']"
  by (simp add: phase_with_member_def new_swift_def add_files_sources_def group_tests_def)

text \<open>
  The sibling \<^verbatim>\<open>manual_fix.py\<close> on the same phase under its own header (lines 77-109): the
  new lines follow the members that were there.
\<close>

lemma manual_fix_appends_new_entries:
  "manual_loop builds refs sources
     [''A10000042 /* Sources */ = {'', ''isa = PBXSourcesBuildPhase;'', ''buildActionMask = 1;'',
      ''files = ('', ''OLD /* Old.swift in Sources */,'', '');'', ''};'']
   = Inr ([''A10000042 /* Sources */ = {'', ''isa = PBXSourcesBuildPhase;'', ''buildActionMask = 1;'',
      ''files = ('', ''OLD /* Old.swift in Sources */,''] @ sources @ ['');'', ''};''])"
  by (simp add: manual_step_def sources_block_def emit_def sentinel_defs)

section \<open>Build files and file kinds (C6)\<close>



lemma add_files_builds_from:
  "add_files_builds choice (k + 2 * n) fs =
     concat (map (\<lambda>(i, f). if fi_type f = ''sourcecode.swift''
                    then [build_line (generate_uuid choice (k + 2 * i + 1))
                            (generate_uuid choice (k + 2 * i)) (fi_name f)]
                    else [])
       (enumerate n fs))"
proof (induction fs arbitrary: n)
  case Nil
  then show ?case by simp
next
  case (Cons f fs)
  from Cons[of "Suc n"] show ?case by simp
qed


lemma manual_entries_from:
  "manual_entries md5 (seed + 2 * n) files =
     (map (\<lambda>(i, fname). ref_line (gen_id md5 (seed + 2 * i)) fname (file_type fname))
        (enumerate n files),
      map (\<lambda>(i, fname). build_line (gen_id md5 (seed + 2 * i + 1)) (gen_id md5 (seed + 2 * i)) fname)
        (enumerate n files),
      map (\<lambda>(i, fname). source_line (gen_id md5 (seed + 2 * i + 1)) fname)
        (enumerate n files))"
proof (induction files arbitrary: n)
  case Nil
  then show ?case by simp
next
  case (Cons fname fs)
  from Cons[of "Suc n"] show ?case by (simp add: Let_def)
qed


section \<open>New groups (C5)\<close>















section \<open>Identifiers of a run (C1)\<close>

text \<open>
  The identifiers a run of \<^verbatim>\<open>manual_fix.py\<close> allocates, in the order of the calls of
  lines 43-45: \<^verbatim>\<open>gen_id(seed)\<close> and \<^verbatim>\<open>gen_id(seed+1)\<close> for every file, the seed going up
  by two.
\<close>

fun manual_ids :: "(string \<Rightarrow> string) \<Rightarrow> nat \<Rightarrow> string list \<Rightarrow> string list" where
  "manual_ids md5 seed [] = []"
| "manual_ids md5 seed (fname # fs) =
     gen_id md5 seed # gen_id md5 (seed + 1) # manual_ids md5 (seed + 2) fs"

text \<open>
  The identifiers a run of \<^verbatim>\<open>add-files-to-xcode.py\<close> allocates, in the order of the calls
  of lines 79-80, from the call number \<open>k\<close> on.
\<close>

fun add_files_ids :: "(nat \<Rightarrow> nat) \<Rightarrow> nat \<Rightarrow> file_info list \<Rightarrow> string list" where
  "add_files_ids choice k [] = []"
| "add_files_ids choice k (f # fs) =
     generate_uuid choice k # generate_uuid choice (k + 1) # add_files_ids choice (k + 2) fs"

text \<open>
  A manifest that holds only the sentinel of the file references, and what a first run of
  \<^verbatim>\<open>manual_fix.py\<close> writes for it when the scan finds the one new file \<^verbatim>\<open>A.swift\<close>.
\<close>

definition bare_manifest :: string where
  "bare_manifest = ''/* End PBXFileReference section */'' @ [LF]"

definition after_first_run :: "(string \<Rightarrow> string) \<Rightarrow> string" where
  "after_first_run md5 =
     ref_line (gen_id md5 60000) ''A.swift'' ''sourcecode.swift'' @ [LF]
       @ ref_line (gen_id md5 60002) ''ZairyuMateDataModel.xcdatamodeld'' ''wrapper.xcdatamodeld''
       @ [LF]
       @ ''/* End PBXFileReference section */'' @ [LF]"

text \<open>
  C1, as the claim states it, at a second run of \<^verbatim>\<open>manual_fix.py\<close> on the manifest its
  first run wrote: the first identifier the run allocates is \<^verbatim>\<open>gen_id(60000)\<close> again, the
  key of a file reference that the loaded document already holds, and the run makes a file
  reference with that key. No script reads the document's identifiers.
\<close>

theorem C1_second_run_reuses_identifier:
  "\<forall>md5. manual_fix_patch md5 (manual_new_files [''A.swift'']) bare_manifest
           = Inr (after_first_run md5)
       \<and> py_in (gen_id md5 60000) (after_first_run md5)
       \<and> manual_ids md5 60000 (manual_new_files [''A.swift''])
           = [gen_id md5 60000, gen_id md5 60001, gen_id md5 60002, gen_id md5 60003]
       \<and> fst (manual_entries md5 60000 (manual_new_files [''A.swift'']))
           = [ref_line (gen_id md5 60000) ''A.swift'' ''sourcecode.swift'',
              ref_line (gen_id md5 60002) ''ZairyuMateDataModel.xcdatamodeld''
                ''wrapper.xcdatamodeld'']"
proof (intro allI conjI)
  fix md5 :: "string \<Rightarrow> string"
  have files: "manual_new_files [''A.swift''] = [''A.swift'', ''ZairyuMateDataModel.xcdatamodeld'']"
    by (simp add: manual_new_files_def curr_files_def)
  show "manual_fix_patch md5 (manual_new_files [''A.swift'']) bare_manifest
          = Inr (after_first_run md5)"
    unfolding files
    by (simp add: manual_fix_patch_def bare_manifest_def after_first_run_def char_defs
          manual_step_def emit_def sentinel_defs file_type_def Let_def)
  show "manual_ids md5 60000 (manual_new_files [''A.swift''])
           = [gen_id md5 60000, gen_id md5 60001, gen_id md5 60002, gen_id md5 60003]"
    unfolding files by simp
  show "fst (manual_entries md5 60000 (manual_new_files [''A.swift'']))
           = [ref_line (gen_id md5 60000) ''A.swift'' ''sourcecode.swift'',
              ref_line (gen_id md5 60002) ''ZairyuMateDataModel.xcdatamodeld''
                ''wrapper.xcdatamodeld'']"
    unfolding files by (simp add: file_type_def Let_def)
  have "after_first_run md5 = [TAB, TAB] @ gen_id md5 60000
      @ ('' /* '' @ ''A.swift'' @ '' */ = {isa = PBXFileReference; lastKnownFileType = ''
       @ ''sourcecode.swift'' @ ''; path = '' @ ''A.swift'' @ ''; sourceTree = '' @ [DQ]
       @ ''<group>'' @ [DQ] @ ''; };'' @ [LF]
       @ ref_line (gen_id md5 60002) ''ZairyuMateDataModel.xcdatamodeld'' ''wrapper.xcdatamodeld''
       @ [LF] @ ''/* End PBXFileReference section */'' @ [LF])"
    by (simp add: after_first_run_def ref_line_def[of "gen_id md5 60000"])
  then show "py_in (gen_id md5 60000) (after_first_run md5)"
    unfolding py_in_iff by blast
qed

lemma two_more:
  "[i..<i + 2 * length (x # xs)] = i # (i + 1) # [i + 2..<i + 2 + 2 * length xs]"
proof -
  have "i < i + 2 * length (x # xs)" by simp
  then have a: "[i..<i + 2 * length (x # xs)] = i # [Suc i..<i + 2 * length (x # xs)]"
    by (rule upt_conv_Cons)
  have "Suc i < i + 2 * length (x # xs)" by simp
  then have b: "[Suc i..<i + 2 * length (x # xs)] = Suc i # [Suc (Suc i)..<i + 2 * length (x # xs)]"
    by (rule upt_conv_Cons)
  show ?thesis by (subst a, subst b) simp
qed

lemma manual_ids_seeds:
  "manual_ids md5 seed files = map (gen_id md5) [seed..<seed + 2 * length files]"
proof (induction files arbitrary: seed)
  case Nil
  then show ?case by simp
next
  case (Cons fname fs)
  have "[seed..<seed + 2 * length (fname # fs)]
          = seed # (seed + 1) # [seed + 2..<seed + 2 + 2 * length fs]"
    by (rule two_more)
  with Cons[of "seed + 2"] show ?case by simp
qed

lemma add_files_ids_calls:
  "add_files_ids choice k fs = map (generate_uuid choice) [k..<k + 2 * length fs]"
proof (induction fs arbitrary: k)
  case Nil
  then show ?case by simp
next
  case (Cons f fs)
  have "[k..<k + 2 * length (f # fs)] = k # (k + 1) # [k + 2..<k + 2 + 2 * length fs]"
    by (rule two_more)
  with Cons[of "k + 2"] show ?case by simp
qed

text \<open>
  C1, amended: the identifiers of a run are a function of the seeds (of the random draws in
  \<^verbatim>\<open>add-files-to-xcode.py\<close>) alone; the document is not read. The seeds of a run are
  consecutive from a fixed start, the file at position \<open>i\<close> gets the identifiers number
  \<open>2 i\<close> and \<open>2 i + 1\<close> in its records, and the identifiers of one run are pairwise distinct
  whenever the allocator gives distinct identifiers for the seeds (the draws) of that run.
\<close>

theorem C1_identifiers_from_seeds_only:
  "manual_ids md5 seed files = map (gen_id md5) [seed..<seed + 2 * length files]
   \<and> add_files_ids choice k fs = map (generate_uuid choice) [k..<k + 2 * length fs]
   \<and> manual_entries md5 seed files =
       (map (\<lambda>(i, fname). ref_line (gen_id md5 (seed + 2 * i)) fname (file_type fname))
          (enumerate 0 files),
        map (\<lambda>(i, fname). build_line (gen_id md5 (seed + 2 * i + 1)) (gen_id md5 (seed + 2 * i)) fname)
          (enumerate 0 files),
        map (\<lambda>(i, fname). source_line (gen_id md5 (seed + 2 * i + 1)) fname)
          (enumerate 0 files))
   \<and> add_files_builds choice 0 fs =
       concat (map (\<lambda>(i, f). if fi_type f = ''sourcecode.swift''
                      then [build_line (generate_uuid choice (2 * i + 1))
                              (generate_uuid choice (2 * i)) (fi_name f)]
                      else [])
         (enumerate 0 fs))
   \<and> (inj_on (gen_id md5) {seed..<seed + 2 * length files} \<longrightarrow>
        distinct (manual_ids md5 seed files))
   \<and> (inj_on (generate_uuid choice) {k..<k + 2 * length fs} \<longrightarrow>
        distinct (add_files_ids choice k fs))"
proof -
  note a = manual_ids_seeds[of md5 seed files]
  note b = add_files_ids_calls[of choice k fs]
  have c: "manual_entries md5 seed files =
       (map (\<lambda>(i, fname). ref_line (gen_id md5 (seed + 2 * i)) fname (file_type fname))
          (enumerate 0 files),
        map (\<lambda>(i, fname). build_line (gen_id md5 (seed + 2 * i + 1)) (gen_id md5 (seed + 2 * i)) fname)
          (enumerate 0 files),
        map (\<lambda>(i, fname). source_line (gen_id md5 (seed + 2 * i + 1)) fname)
          (enumerate 0 files))"
    using manual_entries_from[of md5 seed 0 files] unfolding mult_0_right add_0_right .
  have d: "add_files_builds choice 0 fs =
       concat (map (\<lambda>(i, f). if fi_type f = ''sourcecode.swift''
                      then [build_line (generate_uuid choice (2 * i + 1))
                              (generate_uuid choice (2 * i)) (fi_name f)]
                      else [])
         (enumerate 0 fs))"
    using add_files_builds_from[of choice 0 0 fs] unfolding mult_0_right add_0_left add_0_right .
  have e: "inj_on (gen_id md5) {seed..<seed + 2 * length files} \<longrightarrow>
        distinct (manual_ids md5 seed files)"
    by (simp add: manual_ids_seeds distinct_map)
  have f: "inj_on (generate_uuid choice) {k..<k + 2 * length fs} \<longrightarrow>
        distinct (add_files_ids choice k fs)"
    by (simp add: add_files_ids_calls distinct_map)
  show ?thesis by (intro conjI) (fact a b c d e f)+
qed

text \<open>
  The allocators at a digest that returns its argument and at draws that count up: the
  identifiers of a run that finds one new file differ from one another.
\<close>

theorem C1_identifiers_from_seeds_only_witness:
  "distinct (manual_ids (\<lambda>s. s) 60000 (manual_new_files [''A.swift'']))
   \<and> distinct (add_files_ids (\<lambda>n. n) 0 new_swift)"
proof -
  have files: "manual_new_files [''A.swift''] = [''A.swift'', ''ZairyuMateDataModel.xcdatamodeld'']"
    by (simp add: manual_new_files_def curr_files_def)
  have s: "str_nat 60000 = ''60000''" "str_nat 60001 = ''60001''"
    "str_nat 60002 = ''60002''" "str_nat 60003 = ''60003''"
    by (simp_all add: str_nat.simps digit_char_def)
  have g: "distinct (map (gen_id (\<lambda>s. s)) [60000, 60001, 60002, 60003])"
    by (simp add: gen_id_def s py_upper_def)
  have first: "generate_uuid f c ! 0 = ''0123456789ABCDEF'' ! (f (24 * c) mod 16)" for f c
    unfolding generate_uuid_def by (subst nth_map) simp_all
  have "generate_uuid (\<lambda>n. n) 0 ! 0 \<noteq> generate_uuid (\<lambda>n. n) 1 ! 0"
    unfolding first by simp
  then have u: "generate_uuid (\<lambda>n. n) 0 \<noteq> generate_uuid (\<lambda>n. n) 1"
    by metis
  have i1: "{60000..<60000 + 2 * length (manual_new_files [''A.swift''])}
              = set [60000, 60001, 60002, 60003::nat]"
    unfolding files by auto
  have i2: "{0..<0 + 2 * length new_swift} = {0, 1::nat}" by (auto simp: new_swift_def)
  note inst = C1_identifiers_from_seeds_only[of "\<lambda>s. s" 60000 "manual_new_files [''A.swift'']"
      "\<lambda>n. n" 0 new_swift]
  from inst have m: "inj_on (gen_id (\<lambda>s. s)) {60000..<60000 + 2 * length (manual_new_files [''A.swift''])} \<longrightarrow>
        distinct (manual_ids (\<lambda>s. s) 60000 (manual_new_files [''A.swift'']))"
    by blast
  from inst have r: "inj_on (generate_uuid (\<lambda>n. n)) {0..<0 + 2 * length new_swift} \<longrightarrow>
        distinct (add_files_ids (\<lambda>n. n) 0 new_swift)"
    by blast
  from g have "inj_on (gen_id (\<lambda>s. s)) (set [60000, 60001, 60002, 60003::nat])"
    by (simp only: distinct_map)
  with m have dm: "distinct (manual_ids (\<lambda>s. s) 60000 (manual_new_files [''A.swift'']))"
    unfolding i1 by blast
  have "inj_on (generate_uuid (\<lambda>n. n)) {0, 1::nat}" using u by simp
  with r have dr: "distinct (add_files_ids (\<lambda>n. n) 0 new_swift)" unfolding i2 by blast
  from dm dr show ?thesis ..
qed

section \<open>Text as read and as stored\<close>

lemma universal_newlines_without_CR: "CR \<notin> set s \<Longrightarrow> universal_newlines s = s"
  by (induction s rule: universal_newlines.induct) auto

lemma read_text_without_CR: "CR \<notin> set s \<Longrightarrow> read_text s = s"
  by (simp add: read_text_def universal_newlines_without_CR)

lemma dict_set_not_empty: "dict_set m k v \<noteq> []"
  by (cases m) (auto split: if_splits)

lemma manual_fix_patch_ends_line:
  "manual_fix_patch md5 files t = Inr r \<Longrightarrow> r \<noteq> [] \<and> last r = LF"
  by (auto simp: manual_fix_patch_def split: prod.splits sum.splits)

lemma ultimate_patch_ends_line:
  "ultimate_patch md5 file_map t = Inr r \<Longrightarrow> r \<noteq> [] \<and> last r = LF"
  by (auto simp: ultimate_patch_def split: sum.splits)

section \<open>Validation and restore (C8)\<close>

text \<open>
  A manifest and a backup \<^verbatim>\<open>project.pbxproj.manual_backup\<close> that differ, neither with a
  sentinel.
\<close>

definition disk0 :: disk where
  "disk0 = \<lparr>pbxproj = ''y'', manual_backup = Some ''x'', ultimate_backup = None,
            dated_backup = None, writes = []\<rparr>"

lemma manual_patch_y:
  "manual_fix_patch md5 (manual_new_files []) ''y'' = Inr [CHR ''y'', LF]"
  by (simp add: manual_fix_patch_def manual_new_files_def manual_step_def emit_def
        sentinel_defs char_defs Let_def split: prod.splits)

lemma ultimate_patch_x:
  "ultimate_patch md5 (ultimate_file_map []) ''x'' = Inr [CHR ''x'', LF]"
  by (simp add: ultimate_patch_def ultimate_file_map_def ultimate_eval char_defs split: prod.splits)

lemma read_text_letters: "read_text ''x'' = ''x''" "read_text ''y'' = ''y''"
  by (simp_all add: read_text_def CR_def)

text \<open>
  C8, as the claim states it, at a run of \<^verbatim>\<open>ULTIMATE_FIX.py\<close> on that disk, with no Swift
  file found: the check fails, and the manifest, \<^verbatim>\<open>y\<close> before the run, holds \<^verbatim>\<open>x\<close> after
  it, the text of the backup the script read its document from (lines 19-20 and 247).
\<close>

theorem C8_ultimate_restore_changes_manifest:
  "\<forall>md5. pbxproj disk0 = ''y''
       \<and> snd (ultimate_fix_main md5 [] disk0) = ValidationFailed
       \<and> pbxproj (fst (ultimate_fix_main md5 [] disk0)) = ''x''
       \<and> ''x'' \<noteq> ''y''"
proof (intro allI)
  fix md5 :: "string \<Rightarrow> string"
  have inv: "\<not> ultimate_valid [CHR ''x'', LF]"
    by (simp add: ultimate_valid_def sentinel_defs char_defs)
  have b: "manual_backup disk0 = Some ''x''" by (simp add: disk0_def)
  show "pbxproj disk0 = ''y''
       \<and> snd (ultimate_fix_main md5 [] disk0) = ValidationFailed
       \<and> pbxproj (fst (ultimate_fix_main md5 [] disk0)) = ''x''
       \<and> ''x'' \<noteq> ''y''"
    using inv ultimate_patch_x[of md5]
    by (simp add: ultimate_fix_main_def b read_text_letters Let_def write_pbxproj_def)
       (simp add: disk0_def)
qed

text \<open>
  C8, amended: when the check made after the write fails, the text the run loaded is
  written to the manifest and the failure is printed (the outcome \<open>ValidationFailed\<close>; the
  exit status stays what it was); the backup written before the rewrite holds the loaded
  text in every outcome. \<^verbatim>\<open>manual_fix.py\<close> loads the manifest, in text mode: after the
  restore the manifest holds its own text as read, and it is what it was before the run when
  it stored no carriage return. \<^verbatim>\<open>ULTIMATE_FIX.py\<close> loads
  \<^verbatim>\<open>project.pbxproj.manual_backup\<close>: after the restore the manifest holds the text of that
  backup, whatever it held before, and that backup is left as it was.
\<close>

theorem C8_failed_validation_writes_back_loaded_text:
  "(manual_fix_main md5 found d = (d', oc) \<longrightarrow>
      manual_backup d' = Some (read_text (pbxproj d))
      \<and> (manual_fix_patch md5 (manual_new_files found) (read_text (pbxproj d)) = Inr result
           \<and> \<not> manual_valid result \<longrightarrow>
           pbxproj d' = read_text (pbxproj d) \<and> oc = ValidationFailed
           \<and> writes d' = writes d @ [result, read_text (pbxproj d)]
           \<and> (CR \<notin> set (pbxproj d) \<longrightarrow> pbxproj d' = pbxproj d)))
   \<and> (ultimate_fix_main md5 found_u e = (e', oc_u) \<and> manual_backup e = Some stored \<longrightarrow>
      ultimate_backup e' = Some (read_text stored) \<and> manual_backup e' = Some stored
      \<and> (ultimate_patch md5 (ultimate_file_map found_u) (read_text stored) = Inr result_u
           \<and> \<not> ultimate_valid result_u \<longrightarrow>
           pbxproj e' = read_text stored \<and> oc_u = ValidationFailed
           \<and> writes e' = writes e @ [result_u, read_text stored]))"
proof -
  have m1: "manual_fix_main md5 found d = (d', oc) \<Longrightarrow>
      manual_backup d' = Some (read_text (pbxproj d))"
    by (auto simp: manual_fix_main_def Let_def write_pbxproj_def split: sum.splits if_splits)
  have m2: "manual_fix_main md5 found d = (d', oc) \<Longrightarrow>
      manual_fix_patch md5 (manual_new_files found) (read_text (pbxproj d)) = Inr result \<Longrightarrow>
      \<not> manual_valid result \<Longrightarrow>
      pbxproj d' = read_text (pbxproj d) \<and> oc = ValidationFailed
      \<and> writes d' = writes d @ [result, read_text (pbxproj d)]"
    by (auto simp: manual_fix_main_def Let_def write_pbxproj_def)
  have m3: "pbxproj d' = read_text (pbxproj d) \<Longrightarrow> CR \<notin> set (pbxproj d) \<Longrightarrow>
      pbxproj d' = pbxproj d"
    by (simp add: read_text_without_CR)
  have u1: "ultimate_fix_main md5 found_u e = (e', oc_u) \<Longrightarrow> manual_backup e = Some stored \<Longrightarrow>
      ultimate_backup e' = Some (read_text stored) \<and> manual_backup e' = Some stored"
    by (auto simp: ultimate_fix_main_def Let_def write_pbxproj_def split: sum.splits if_splits)
  have u2: "ultimate_fix_main md5 found_u e = (e', oc_u) \<Longrightarrow> manual_backup e = Some stored \<Longrightarrow>
      ultimate_patch md5 (ultimate_file_map found_u) (read_text stored) = Inr result_u \<Longrightarrow>
      \<not> ultimate_valid result_u \<Longrightarrow>
      pbxproj e' = read_text stored \<and> oc_u = ValidationFailed
      \<and> writes e' = writes e @ [result_u, read_text stored]"
    by (auto simp: ultimate_fix_main_def Let_def write_pbxproj_def)
  from m1 m2 m3 u1 u2 show ?thesis by blast
qed

text \<open>
  A run of each script on that disk with no Swift file found: the check fails; the manifest
  is \<^verbatim>\<open>y\<close> as before after \<^verbatim>\<open>manual_fix.py\<close>, and both backups hold what was loaded.
\<close>

theorem C8_failed_validation_writes_back_loaded_text_witness:
  "\<forall>md5. pbxproj (fst (manual_fix_main md5 [] disk0)) = pbxproj disk0
       \<and> snd (manual_fix_main md5 [] disk0) = ValidationFailed
       \<and> manual_backup (fst (manual_fix_main md5 [] disk0)) = Some ''y''
       \<and> ultimate_backup (fst (ultimate_fix_main md5 [] disk0)) = Some ''x''
       \<and> manual_backup (fst (ultimate_fix_main md5 [] disk0)) = Some ''x''"
proof (intro allI)
  fix md5 :: "string \<Rightarrow> string"
  have inv1: "\<not> manual_valid [CHR ''y'', LF]"
    by (simp add: manual_valid_def sentinel_defs char_defs)
  have inv2: "\<not> ultimate_valid [CHR ''x'', LF]"
    by (simp add: ultimate_valid_def sentinel_defs char_defs)
  have p: "pbxproj disk0 = ''y''" and b: "manual_backup disk0 = Some ''x''"
    and nocr: "CR \<notin> set (pbxproj disk0)"
    by (simp_all add: disk0_def CR_def)
  from C8_failed_validation_writes_back_loaded_text[of md5 "[]" disk0
      "fst (manual_fix_main md5 [] disk0)" "snd (manual_fix_main md5 [] disk0)"
      "[CHR ''y'', LF]" "[]" disk0
      "fst (ultimate_fix_main md5 [] disk0)" "snd (ultimate_fix_main md5 [] disk0)"
      "''x''" "[CHR ''x'', LF]"]
    manual_patch_y[of md5] ultimate_patch_x[of md5] inv1 inv2 p b nocr
  show "pbxproj (fst (manual_fix_main md5 [] disk0)) = pbxproj disk0
       \<and> snd (manual_fix_main md5 [] disk0) = ValidationFailed
       \<and> manual_backup (fst (manual_fix_main md5 [] disk0)) = Some ''y''
       \<and> ultimate_backup (fst (ultimate_fix_main md5 [] disk0)) = Some ''x''
       \<and> manual_backup (fst (ultimate_fix_main md5 [] disk0)) = Some ''x''"
    by (simp add: read_text_letters)
qed

section \<open>Nothing to add (C9)\<close>

lemma fix_project_patch_nothing:
  "filter (\<lambda>f. f \<notin> set curr_files) found = [] \<Longrightarrow> fix_project_patch md5 found t = t"
  by (simp add: fix_project_patch_def project_assemble_no_entries join_split_char)

text \<open>A manifest of one line that ends with a carriage return and a line feed.\<close>

definition crlf_disk :: disk where
  "crlf_disk = \<lparr>pbxproj = [CHR ''a'', CR, LF], manual_backup = None, ultimate_backup = None,
                dated_backup = None, writes = []\<rparr>"

text \<open>
  C9, as the claim states it, at a run of \<^verbatim>\<open>fix_project.py\<close> on that manifest when the scan
  finds no Swift file, so that the list of new files is empty: the text is read in text
  mode, and the manifest written ends its line with a line feed alone.
\<close>

theorem C9_line_terminator_rewritten:
  "\<forall>md5. sort (filter (\<lambda>f. f \<notin> set curr_files) []) = []
       \<and> pbxproj crlf_disk = [CHR ''a'', CR, LF]
       \<and> pbxproj (fst (fix_project_main md5 [] crlf_disk)) = [CHR ''a'', LF]
       \<and> [CHR ''a'', LF] \<noteq> [CHR ''a'', CR, LF]"
  by (simp add: fix_project_main_def fix_project_patch_nothing Let_def write_pbxproj_def
        crlf_disk_def read_text_def CR_def LF_def)

text \<open>
  C9, amended: \<^verbatim>\<open>fix_project.py\<close> with no new file writes the text it read: the manifest
  after the run is the manifest before it with every carriage return and line feed, and
  every carriage return alone, replaced by a line feed, and so the manifest itself when it
  stores no carriage return, with or without a newline at its end. \<^verbatim>\<open>manual_fix.py\<close> and
  \<^verbatim>\<open>ULTIMATE_FIX.py\<close> always add the data model: their list of new files is never empty,
  and the text they write always ends with a line feed.
\<close>

theorem C9_nothing_to_add:
  "(filter (\<lambda>f. f \<notin> set curr_files) found = [] \<longrightarrow>
      pbxproj (fst (fix_project_main md5 found d)) = universal_newlines (pbxproj d)
      \<and> (CR \<notin> set (pbxproj d) \<longrightarrow> pbxproj (fst (fix_project_main md5 found d)) = pbxproj d))
   \<and> manual_new_files found \<noteq> []
   \<and> ultimate_file_map found_u \<noteq> []
   \<and> (manual_fix_patch md5 (manual_new_files found) t = Inr r \<longrightarrow> r \<noteq> [] \<and> last r = LF)
   \<and> (ultimate_patch md5 (ultimate_file_map found_u) t_u = Inr r_u \<longrightarrow>
        r_u \<noteq> [] \<and> last r_u = LF)"
proof -
  have a: "pbxproj (fst (fix_project_main md5 found d)) = universal_newlines (pbxproj d)"
    if "filter (\<lambda>f. f \<notin> set curr_files) found = []"
    using fix_project_patch_nothing[OF that]
    by (simp add: fix_project_main_def Let_def write_pbxproj_def read_text_def)
  have b: "manual_new_files found \<noteq> []" by (simp add: manual_new_files_def)
  have c: "ultimate_file_map found_u \<noteq> []"
    unfolding ultimate_file_map_def by (rule dict_set_not_empty)
  have a': "pbxproj (fst (fix_project_main md5 found d)) = pbxproj d"
    if "filter (\<lambda>f. f \<notin> set curr_files) found = []" and "CR \<notin> set (pbxproj d)"
    using a[OF that(1)] universal_newlines_without_CR[OF that(2)] by simp
  note e = manual_fix_patch_ends_line[of md5 "manual_new_files found" t r]
  note f = ultimate_patch_ends_line[of md5 "ultimate_file_map found_u" t_u r_u]
  from a a' b c e f show ?thesis by blast
qed

text \<open>
  A manifest of two lines, the second without a newline at its end, and a scan that finds
  only a file the project has: \<^verbatim>\<open>fix_project.py\<close> writes the manifest as it was.
\<close>

definition two_line_disk :: disk where
  "two_line_disk = \<lparr>pbxproj = ''a'' @ [LF] @ ''b'', manual_backup = None,
                    ultimate_backup = None, dated_backup = None, writes = []\<rparr>"

theorem C9_nothing_to_add_witness:
  "\<forall>md5. pbxproj (fst (fix_project_main md5 [''Constants.swift''] two_line_disk))
         = ''a'' @ [LF] @ ''b''
       \<and> manual_fix_patch md5 (manual_new_files [''Constants.swift'']) ''y'' = Inr [CHR ''y'', LF]
       \<and> ultimate_patch md5 (ultimate_file_map []) ''x'' = Inr [CHR ''x'', LF]
       \<and> last [CHR ''y'', LF] = LF \<and> last [CHR ''x'', LF] = LF"
proof (intro allI)
  fix md5 :: "string \<Rightarrow> string"
  have none: "filter (\<lambda>f. f \<notin> set curr_files) [''Constants.swift''] = []"
    by (simp add: curr_files_def)
  have nocr: "CR \<notin> set (pbxproj two_line_disk)"
    by (simp add: two_line_disk_def CR_def LF_def)
  have same: "manual_new_files [''Constants.swift''] = manual_new_files []"
    by (simp add: manual_new_files_def curr_files_def)
  note inst = C9_nothing_to_add[of "[''Constants.swift'']" md5 two_line_disk "[]" "''y''"
      "[CHR ''y'', LF]" "''x''" "[CHR ''x'', LF]"]
  from inst none nocr
  have "pbxproj (fst (fix_project_main md5 [''Constants.swift''] two_line_disk))
          = pbxproj two_line_disk"
    by blast
  then have one: "pbxproj (fst (fix_project_main md5 [''Constants.swift''] two_line_disk))
         = ''a'' @ [LF] @ ''b''"
    by (simp add: two_line_disk_def)
  have two: "manual_fix_patch md5 (manual_new_files [''Constants.swift'']) ''y'' = Inr [CHR ''y'', LF]"
    using manual_patch_y[of md5] same by simp
  from inst two have three: "last [CHR ''y'', LF] = LF" by blast
  from inst ultimate_patch_x[of md5] have four: "last [CHR ''x'', LF] = LF" by blast
  from one two ultimate_patch_x[of md5] three four
  show "pbxproj (fst (fix_project_main md5 [''Constants.swift''] two_line_disk))
         = ''a'' @ [LF] @ ''b''
       \<and> manual_fix_patch md5 (manual_new_files [''Constants.swift'']) ''y'' = Inr [CHR ''y'', LF]
       \<and> ultimate_patch md5 (ultimate_file_map []) ''x'' = Inr [CHR ''x'', LF]
       \<and> last [CHR ''y'', LF] = LF \<and> last [CHR ''x'', LF] = LF"
    by blast
qed

section \<open>What the validation can see (C10)\<close>

text \<open>
  The rewrite loop of \<^verbatim>\<open>manual_fix.py\<close> copies every line of its input, so for a document
  that holds both sentinels of its check a rewrite that completes passes the check, and the
  run never ends with the restore. The same holds for \<^verbatim>\<open>ULTIMATE_FIX.py\<close> and its two
  sentinels on the documents in which it rewrites no group record.
\<close>

lemma complete_rewrite_passes_check:
  "(py_in end_buildfile original \<and> py_in end_fileref original
      \<and> manual_fix_patch md5 new_files original = Inr result \<longrightarrow> manual_valid result)
   \<and> (py_in end_buildfile (read_text (pbxproj d)) \<and> py_in end_fileref (read_text (pbxproj d)) \<longrightarrow>
        snd (manual_fix_main md5 found d) \<noteq> ValidationFailed)
   \<and> (py_in end_buildfile doc \<and> py_in end_group doc
      \<and> rewrites_no_group md5 file_map (splitlines doc)
      \<and> ultimate_patch md5 file_map doc = Inr result_u \<longrightarrow> ultimate_valid result_u)"
proof -
  have manual: "manual_valid r"
    if "py_in end_buildfile t" "py_in end_fileref t" "manual_fix_patch md5 fs t = Inr r" for t fs r
  proof -
    obtain refs builds sources where e: "manual_entries md5 60000 fs = (refs, builds, sources)"
      by (cases "manual_entries md5 60000 fs")
    with that(3) obtain out where lp: "manual_loop builds refs sources (splitlines t) = Inr out"
      and r: "r = join_nl out @ [LF]"
      by (auto simp: manual_fix_patch_def split: sum.splits)
    from manual_loop_frame[OF lp] have sub: "subseq (splitlines t) out" by simp
    from sentinel_survives[OF sentinels_plain(1,2) that(1) sub]
      sentinel_survives[OF sentinels_plain(3,4) that(2) sub] r
    show ?thesis by (simp add: manual_valid_def)
  qed
  have main: "snd (manual_fix_main md5 found d) \<noteq> ValidationFailed"
    if "py_in end_buildfile (read_text (pbxproj d))" "py_in end_fileref (read_text (pbxproj d))"
  proof (cases "manual_fix_patch md5 (manual_new_files found) (read_text (pbxproj d))")
    case (Inl e)
    then show ?thesis by (simp add: manual_fix_main_def)
  next
    case (Inr r)
    with manual[OF that Inr] show ?thesis by (simp add: manual_fix_main_def Let_def)
  qed
  have ultimate: "ultimate_valid result_u"
    if "py_in end_buildfile doc" "py_in end_group doc"
      "rewrites_no_group md5 file_map (splitlines doc)"
      "ultimate_patch md5 file_map doc = Inr result_u"
  proof -
    from that(4) obtain out where lp: "ultimate_loop md5 file_map (splitlines doc) = Inr out"
      and r: "result_u = join_nl out @ [LF]"
      by (auto simp: ultimate_patch_def split: sum.splits)
    from ultimate_loop_frame[OF that(3) lp] have sub: "subseq (splitlines doc) out" by simp
    from sentinel_survives[OF sentinels_plain(1,2) that(1) sub]
      sentinel_survives[OF sentinels_plain(5,6) that(2) sub] r
    show ?thesis by (simp add: ultimate_valid_def)
  qed
  from manual main ultimate show ?thesis by blast
qed

text \<open>An identifier is upper case: it holds no lower-case letter.\<close>

lemma py_upper_not_lower: "py_upper c \<noteq> CHR ''p''"
proof
  assume a: "py_upper c = CHR ''p''"
  show False
  proof (cases "CHR ''a'' \<le> c \<and> c \<le> CHR ''z''")
    case True
    then have r: "97 \<le> (of_char c :: nat)" "(of_char c :: nat) \<le> 122"
      by (simp_all add: less_eq_char_def)
    from a True have "char_of (of_char c - (32::nat)) = CHR ''p''" by (simp add: py_upper_def)
    then have "(of_char (char_of (of_char c - (32::nat)) :: char) :: nat) = of_char CHR ''p''"
      by simp
    then have "(of_char c - (32::nat)) mod 256 = 112" by (simp add: of_char_of)
    with r show False by simp
  next
    case False
    with a have "c = CHR ''p''" by (simp add: py_upper_def)
    with False show False by (simp add: less_eq_char_def)
  qed
qed

lemma gen_id_not_lower: "CHR ''p'' \<notin> set (gen_id md5 seed)"
proof
  assume "CHR ''p'' \<in> set (gen_id md5 seed)"
  then have "CHR ''p'' \<in> set (map py_upper (md5 (str_nat seed)))"
    unfolding gen_id_def by (rule in_set_takeD)
  then obtain c where "py_upper c = CHR ''p''" by auto
  with py_upper_not_lower[of c] show False by simp
qed

text \<open>A pattern found in \<open>xs @ ys\<close> has every letter that \<open>xs\<close> lacks in \<open>ys\<close>.\<close>

lemma py_in_from_letter:
  assumes "py_in (p @ a # q) (xs @ ys)" and "a \<notin> set xs"
  shows "py_in (a # q) ys"
proof -
  from assms(1) obtain u v where "xs @ ys = u @ (p @ a # q) @ v"
    unfolding py_in_iff by blast
  then have "xs @ ys = (u @ p) @ (a # q @ v)" by simp
  then obtain w where "(xs = (u @ p) @ w \<and> w @ ys = a # q @ v)
      \<or> (xs @ w = u @ p \<and> ys = w @ a # q @ v)"
    unfolding append_eq_append_conv2 by blast
  then show ?thesis
  proof
    assume c: "xs = (u @ p) @ w \<and> w @ ys = a # q @ v"
    show ?thesis
    proof (cases w)
      case Nil
      with c have "ys = [] @ (a # q) @ v" by simp
      then show ?thesis unfolding py_in_iff by blast
    next
      case (Cons b w')
      with c have "b = a" by simp
      with c Cons assms(2) show ?thesis by simp
    qed
  next
    assume "xs @ w = u @ p \<and> ys = w @ a # q @ v"
    then have "ys = w @ (a # q) @ v" by simp
    then show ?thesis unfolding py_in_iff by blast
  qed
qed

lemma build_line_without_end_group:
  "\<not> py_in end_group
       (build_line (gen_id md5 j) (gen_id md5 k) ''ZairyuMateDataModel.xcdatamodeld'')"
proof
  let ?xs = "[TAB, TAB] @ gen_id md5 j
              @ '' /* ZairyuMateDataModel.xcdatamodeld in Sources */ = {isa = PBXBuildFile; fileRef = ''
              @ gen_id md5 k"
  let ?ys = "'' /* ZairyuMateDataModel.xcdatamodeld */; };''"
  assume "py_in end_group
       (build_line (gen_id md5 j) (gen_id md5 k) ''ZairyuMateDataModel.xcdatamodeld'')"
  then have "py_in (''/* End PBXGrou'' @ CHR ''p'' # '' section */'') (?xs @ ?ys)"
    by (simp add: build_line_def end_group_def)
  moreover have "CHR ''p'' \<notin> set ?xs"
    using gen_id_not_lower[of md5 j] gen_id_not_lower[of md5 k] by (simp add: TAB_def)
  ultimately have "py_in (CHR ''p'' # '' section */'') ?ys"
    by (rule py_in_from_letter)
  then show False by simp
qed

text \<open>
  A document with the two sentinels that \<^verbatim>\<open>ULTIMATE_FIX.py\<close> checks, in which the record of
  the group \<^verbatim>\<open>A10000039\<close> is followed at once by the line that ends the group section; the
  lines written for it when the scan finds no Swift file; and a disk whose backup
  \<^verbatim>\<open>project.pbxproj.manual_backup\<close> holds the document.
\<close>

definition group_before_end :: "string list" where
  "group_before_end =
     [''/* End PBXBuildFile section */'',
      ''A10000039 /* Theme */ = {'',
      ''isa = PBXGroup;'',
      ''children = ('',
      '');'',
      ''};'',
      ''/* End PBXGroup section */'']"

definition group_before_end_patched :: "(string \<Rightarrow> string) \<Rightarrow> string list" where
  "group_before_end_patched md5 =
     [build_line (gen_id md5 90001) (gen_id md5 90000) ''ZairyuMateDataModel.xcdatamodeld'',
      ''/* End PBXBuildFile section */'',
      ''A10000039 /* Theme */ = {'',
      ''isa = PBXGroup;'',
      ''children = ('',
      '');'',
      ''};'',
      ''A10000039 /* Theme */ = {'']"

definition theme_disk :: disk where
  "theme_disk = \<lparr>pbxproj = join_nl group_before_end @ [LF],
                 manual_backup = Some (join_nl group_before_end @ [LF]),
                 ultimate_backup = None, dated_backup = None, writes = []\<rparr>"

lemma splitlines_group_before_end:
  "splitlines (join_nl group_before_end @ [LF]) = group_before_end"
  by (rule splitlines_join_nl) (simp_all add: group_before_end_def is_break_def)

lemma ultimate_loop_group_before_end:
  "ultimate_loop md5 (ultimate_file_map []) group_before_end = Inr (group_before_end_patched md5)"
  by (simp add: group_before_end_def group_before_end_patched_def ultimate_file_map_def
        ultimate_eval)

lemma read_text_group_before_end:
  "read_text (join_nl group_before_end @ [LF]) = join_nl group_before_end @ [LF]"
  by (rule read_text_without_CR) (simp add: group_before_end_def CR_def LF_def)

text \<open>
  C10, at a run of \<^verbatim>\<open>ULTIMATE_FIX.py\<close> on that document when the scan finds no Swift file:
  the document holds both sentinels of the check, the rewrite completes, and the text it
  writes does not hold the sentinel of the group section, so the check of line 239 fails
  and the restore of line 247 runs. After the group record the loop appends the variable
  \<^verbatim>\<open>line\<close>, still the header of the record, and steps over the next line, here the line
  that ends the group section (lines 212 and 228-229).
\<close>

theorem C10_ultimate_validation_fails:
  "\<forall>md5. py_in end_buildfile (join_nl group_before_end @ [LF])
       \<and> py_in end_group (join_nl group_before_end @ [LF])
       \<and> ultimate_patch md5 (ultimate_file_map []) (join_nl group_before_end @ [LF])
           = Inr (join_nl (group_before_end_patched md5) @ [LF])
       \<and> \<not> py_in end_group (join_nl (group_before_end_patched md5) @ [LF])
       \<and> \<not> ultimate_valid (join_nl (group_before_end_patched md5) @ [LF])
       \<and> snd (ultimate_fix_main md5 [] theme_disk) = ValidationFailed"
proof (intro allI)
  fix md5 :: "string \<Rightarrow> string"
  let ?doc = "join_nl group_before_end @ [LF]"
  let ?res = "join_nl (group_before_end_patched md5) @ [LF]"
  have "py_in end_buildfile (join_nl group_before_end)"
    by (rule py_in_join_char[of "''/* End PBXBuildFile section */''"])
       (simp_all add: group_before_end_def end_buildfile_def)
  then have s1: "py_in end_buildfile ?doc"
    by (rule py_in_append_right)
  have "py_in end_group (join_nl group_before_end)"
    by (rule py_in_join_char[of "''/* End PBXGroup section */''"])
       (simp_all add: group_before_end_def end_group_def)
  then have s2: "py_in end_group ?doc"
    by (rule py_in_append_right)
  have p: "ultimate_patch md5 (ultimate_file_map []) ?doc = Inr ?res"
    by (simp add: ultimate_patch_def splitlines_group_before_end ultimate_loop_group_before_end)
  have n: "\<not> py_in end_group ?res"
  proof
    assume "py_in end_group ?res"
    then have "\<exists>l \<in> set (group_before_end_patched md5). py_in end_group l"
      by (intro py_in_join_terminated) (simp_all add: end_group_def LF_def)
    then have "py_in end_group
        (build_line (gen_id md5 90001) (gen_id md5 90000) ''ZairyuMateDataModel.xcdatamodeld'')"
      by (simp add: group_before_end_patched_def) (simp add: end_group_def)
    with build_line_without_end_group show False by blast
  qed
  then have v: "\<not> ultimate_valid ?res" by (simp add: ultimate_valid_def)
  have b: "manual_backup theme_disk = Some ?doc" by (simp add: theme_disk_def)
  from p v have m: "snd (ultimate_fix_main md5 [] theme_disk) = ValidationFailed"
    by (simp add: ultimate_fix_main_def b read_text_group_before_end Let_def)
  from s1 s2 p n v m
  show "py_in end_buildfile ?doc \<and> py_in end_group ?doc
       \<and> ultimate_patch md5 (ultimate_file_map []) ?doc = Inr ?res
       \<and> \<not> py_in end_group ?res \<and> \<not> ultimate_valid ?res
       \<and> snd (ultimate_fix_main md5 [] theme_disk) = ValidationFailed"
    by blast
qed

end
